theory Spec2Isabelle
  imports Complex_Main "HOL-Library.Monad_Syntax"
begin

section \<open>Numbers\<close>

text \<open>
  The script computes with JavaScript numbers, which are IEEE 754 binary64 numbers. Where
  rounding decides nothing they are modelled as exact reals: rounding is not part of
  that model, and the decimal literals of the source stand for the rationals they
  denote. A division whose divisor is a literal, or a value that the enclosing \<open>if\<close> of
  the source has just tested to be positive, is the division of the reals. Every other
  division goes through \<open>jsdiv\<close>: dividing by zero gives NaN or an infinity in
  JavaScript, which no real number stands for, so the model's result is \<open>None\<close> there,
  and \<open>None\<close> is passed on as NaN is by arithmetic.
\<close>

definition jsdiv :: "real \<Rightarrow> real \<Rightarrow> real option" where
  "jsdiv p q = (if q = 0 then None else Some (p / q))"

subsection \<open>Binary64 arithmetic\<close>

text \<open>
  Where rounding decides a property, the bound on the speed of a particle, the code is
  modelled a second time with every operation rounded. \<open>round64\<close> rounds a real to the
  nearest binary64 number, ties to the even significand: the numbers of the binade
  \<open>2^e \<le> \<bar>x\<bar> < 2^(e+1)\<close> are the multiples of \<open>2^(e-52)\<close>, and below \<open>2^-1022\<close> the
  subnormal numbers are the multiples of \<open>2^-1074\<close>.
\<close>

definition round_half_even :: "real \<Rightarrow> int" where
  "round_half_even y =
     (let f = \<lfloor>y\<rfloor>;
          r = y - of_int f
      in if r < 1/2 then f
         else if 1/2 < r then f + 1
         else if even f then f else f + 1)"

definition binade :: "real \<Rightarrow> int" where
  "binade x = max \<lfloor>log 2 \<bar>x\<bar>\<rfloor> (- 1022)"

definition round64 :: "real \<Rightarrow> real" where
  "round64 x =
     (if x = 0 then 0
      else (let ulp = 2 powi (binade x - 52)
            in of_int (round_half_even (x / ulp)) * ulp))"

text \<open>
  The two bounds on the error of \<open>round64\<close>: relative, half a unit in the last place of
  a normal number, and absolute, half the least subnormal number.
\<close>

definition unit_roundoff :: real where
  "unit_roundoff = 1 / 2 ^ 53"

definition half_min_subnormal :: real where
  "half_min_subnormal = 1 / 2 ^ 1075"

text \<open>
  The result of an operation: a rounded result of magnitude \<open>2^1024\<close> or more is an
  infinity in JavaScript and \<open>None\<close> here, as are a division by zero and the square root
  of a negative number.
\<close>

definition fl :: "real \<Rightarrow> real option" where
  "fl x = (let r = round64 x in if \<bar>r\<bar> < 2 ^ 1024 then Some r else None)"

definition fadd :: "real \<Rightarrow> real \<Rightarrow> real option" where
  "fadd a b = fl (a + b)"

definition fsub :: "real \<Rightarrow> real \<Rightarrow> real option" where
  "fsub a b = fl (a - b)"

definition fmul :: "real \<Rightarrow> real \<Rightarrow> real option" where
  "fmul a b = fl (a * b)"

definition fdiv :: "real \<Rightarrow> real \<Rightarrow> real option" where
  "fdiv a b = (if b = 0 then None else fl (a / b))"

definition fsqrt :: "real \<Rightarrow> real option" where
  "fsqrt a = (if a < 0 then None else fl (sqrt a))"

section \<open>The Bloch sphere icon\<close>

text \<open>
  The fields of \<open>BlochSphereIcon\<close> that the animation reads and writes: the displayed
  vector \<open>this.x, this.y, this.z\<close> and the target vector.
\<close>

record bloch =
  vec_x :: real
  vec_y :: real
  vec_z :: real
  targetX :: real
  targetY :: real
  targetZ :: real

text \<open>The constructor: both vectors start at \<open>(0.707, 0, 0.707)\<close>.\<close>

definition bloch_init :: bloch where
  "bloch_init = \<lparr>vec_x = 0.707, vec_y = 0, vec_z = 0.707,
                 targetX = 0.707, targetY = 0, targetZ = 0.707\<rparr>"

text \<open>
  \<open>cartesianToScreen(x, y, z, radius = 22)\<close>: the fixed oblique projection, in the units
  of the SVG view box, whose sphere has centre \<open>(30, 30)\<close>.
\<close>

definition cartesianToScreen :: "real \<Rightarrow> real \<Rightarrow> real \<Rightarrow> real \<Rightarrow> real \<times> real" where
  "cartesianToScreen x y z radius =
     (let x3d = x * radius;
          y3d = y * radius;
          z3d = z * radius;
          screenX = 30 + x3d * 0.9 + y3d * 0.3;
          screenY = 30 - z3d + y3d * 0.2
      in (screenX, screenY))"

text \<open>
  The coefficients of the quadratic \<open>A*y\<^sup>2 + B*y + C = 0\<close> of \<open>handleMouseMove\<close>, with
  \<open>a = 0.3\<close>, \<open>b = 0.9\<close>, \<open>c = 0.2\<close>, and its discriminant.
\<close>

definition quadA :: real where
  "quadA = (let a = 0.3; b = 0.9; c = 0.2 in (a*a)/(b*b) + 1 + c*c)"

definition quadB :: "real \<Rightarrow> real \<Rightarrow> real" where
  "quadB dx dy = (let a = 0.3; b = 0.9; c = 0.2 in -2*a*dx/(b*b) - 2*c*dy)"

definition quadC :: "real \<Rightarrow> real \<Rightarrow> real" where
  "quadC dx dy = (let b = 0.9 in (dx*dx)/(b*b) + dy*dy - 1)"

definition discriminant :: "real \<Rightarrow> real \<Rightarrow> real" where
  "discriminant dx dy = quadB dx dy * quadB dx dy - 4 * quadA * quadC dx dy"

text \<open>
  \<open>handleMouseMove\<close> from the point where the pointer offset \<open>(dx, dy)\<close>, in units of the
  sphere's radius on screen, has been read off the event and the bounding rectangle.
  It writes the target vector only.
\<close>

definition handleMouseMove :: "real \<Rightarrow> real \<Rightarrow> bloch \<Rightarrow> bloch" where
  "handleMouseMove dx dy s =
     (let a = 0.3; b = 0.9; c = 0.2;
          A = quadA;
          B = quadB dx dy;
          D = discriminant dx dy
      in if D \<ge> 0 then
           (let sqrtD = sqrt D;
                y1 = (-B + sqrtD) / (2*A);
                y2 = (-B - sqrtD) / (2*A);
                tY = (if y1 \<ge> 0 then y1 else (if y2 \<ge> 0 then y2 else max y1 y2));
                tX = (dx - a*tY) / b;
                tZ = -dy + c*tY;
                len = sqrt (tX*tX + tY*tY + tZ*tZ)
            in if len > 0
               then s\<lparr>targetX := tX / len, targetY := tY / len, targetZ := tZ / len\<rparr>
               else s\<lparr>targetX := tX, targetY := tY, targetZ := tZ\<rparr>)
         else
           (let len2D = sqrt (dx*dx + dy*dy)
            in if len2D > 0 then
                 (let ndx = dx / len2D;
                      ndy = dy / len2D;
                      tX = ndx / 0.9;
                      tZ = -ndy;
                      len = sqrt (tX*tX + tZ*tZ)
                  in if len > 0
                     then s\<lparr>targetX := tX / len, targetY := 0, targetZ := tZ / len\<rparr>
                     else s\<lparr>targetX := tX, targetY := 0, targetZ := tZ\<rparr>)
               else s))"



text \<open>
  The spec's words for the branch with a real solution, to be compared with
  \<open>handleMouseMove\<close>: the two roots, the choice between them (the non-negative one, else
  the larger), the back-substitution and the renormalisation.
\<close>

definition root1 :: "real \<Rightarrow> real \<Rightarrow> real" where
  "root1 dx dy = (- quadB dx dy + sqrt (discriminant dx dy)) / (2 * quadA)"

definition root2 :: "real \<Rightarrow> real \<Rightarrow> real" where
  "root2 dx dy = (- quadB dx dy - sqrt (discriminant dx dy)) / (2 * quadA)"

definition spec_select_root :: "real \<Rightarrow> real \<Rightarrow> real" where
  "spec_select_root dx dy =
     (if root1 dx dy \<ge> 0 then root1 dx dy
      else if root2 dx dy \<ge> 0 then root2 dx dy
      else max (root1 dx dy) (root2 dx dy))"

definition spec_front_solution :: "real \<Rightarrow> real \<Rightarrow> real \<times> real \<times> real" where
  "spec_front_solution dx dy =
     (let y = spec_select_root dx dy;
          x = (dx - 0.3 * y) / 0.9;
          z = - dy + 0.2 * y;
          len = sqrt (x*x + y*y + z*z)
      in (x / len, y / len, z / len))"

section \<open>The particle field\<close>

text \<open>\<open>this.config\<close> of \<open>TensorNetworkAnimation\<close>, set once by the constructor.\<close>

record physics =
  screeningLength :: real
  coulombStrength :: real
  damping :: real
  maxVelocity :: real
  softening :: real
  brownianStrength :: real

record configuration =
  particleCount :: nat
  particleRadiusMin :: real
  particleRadiusMax :: real
  connectionDistance :: real
  particleSpeed :: real
  color_cyan :: string
  color_purple :: string
  color_line :: string
  physics :: physics

definition config :: configuration where
  "config =
     \<lparr>particleCount = 150,
      particleRadiusMin = 3,
      particleRadiusMax = 4,
      connectionDistance = 150,
      particleSpeed = 0.5,
      color_cyan = ''rgba(0, 242, 255, '',
      color_purple = ''rgba(189, 0, 255, '',
      color_line = ''rgba(0, 242, 255, '',
      physics =
        \<lparr>screeningLength = 100,
         coulombStrength = 200,
         damping = 1.0,
         maxVelocity = 10.0,
         softening = 20,
         brownianStrength = 0.1\<rparr>\<rparr>"

text \<open>
  A particle as \<open>createParticles\<close> builds it; \<open>px\<close> and \<open>py\<close> are the fields \<open>x\<close> and
  \<open>y\<close> of the source.
\<close>

record particle =
  px :: real
  py :: real
  radius :: real
  vx :: real
  vy :: real
  isCyan :: bool
  charge :: real
  ax :: real
  ay :: real
  baseRadius :: real
  pulseOffset :: real

text \<open>\<open>this.mouse\<close>: \<open>None\<close> is the source's \<open>null\<close>.\<close>

record mouse =
  mouse_x :: "real option"
  mouse_y :: "real option"
  mouse_radius :: real

definition mouse_init :: mouse where
  "mouse_init = \<lparr>mouse_x = None, mouse_y = None, mouse_radius = 150\<rparr>"

text \<open>The listeners that \<open>bindEvents\<close> installs for \<open>mousemove\<close> and \<open>mouseout\<close>.\<close>

definition mousemove :: "real \<Rightarrow> real \<Rightarrow> mouse \<Rightarrow> mouse" where
  "mousemove clientX clientY m = m\<lparr>mouse_x := Some clientX, mouse_y := Some clientY\<rparr>"

definition mouseout :: "mouse \<Rightarrow> mouse" where
  "mouseout m = m\<lparr>mouse_x := None, mouse_y := None\<rparr>"

record canvas =
  width :: real
  height :: real

subsection \<open>Forces between particles\<close>

definition resetAcceleration :: "particle \<Rightarrow> particle" where
  "resetAcceleration p = p\<lparr>ax := 0, ay := 0\<rparr>"

text \<open>
  The body of the inner loop of \<open>calculateForces\<close> for the particles \<open>p1\<close> and \<open>p2\<close>:
  the pair is returned as the body leaves it. Neither \<open>dist\<close> nor \<open>r\<close> is tested
  before the divisions.
\<close>

definition pairForce :: "physics \<Rightarrow> particle \<Rightarrow> particle \<Rightarrow> (particle \<times> particle) option" where
  "pairForce phys p1 p2 =
     (let dx = px p2 - px p1;
          dy = py p2 - py p1;
          distSq = dx * dx + dy * dy;
          dist = sqrt distSq
      in if dist > screeningLength phys * 2 then Some (p1, p2)
         else do {
           let r = dist + softening phys;
           e \<leftarrow> jsdiv (- dist) (screeningLength phys);
           let screening = exp e;
           q \<leftarrow> jsdiv (coulombStrength phys * charge p1 * charge p2) (r * r);
           let forceMag = q * screening;
           ux \<leftarrow> jsdiv dx dist;
           uy \<leftarrow> jsdiv dy dist;
           let fx = ux * forceMag;
           let fy = uy * forceMag;
           Some (p1\<lparr>ax := ax p1 - fx, ay := ay p1 - fy\<rparr>,
                 p2\<lparr>ax := ax p2 + fx, ay := ay p2 + fy\<rparr>)
         })"

text \<open>One iteration of the inner loop on the array, for the indices \<open>i < j\<close>.\<close>

definition pairStep :: "physics \<Rightarrow> nat \<Rightarrow> nat \<Rightarrow> particle list \<Rightarrow> particle list option" where
  "pairStep phys i j ps =
     do {
       (p1, p2) \<leftarrow> pairForce phys (ps ! i) (ps ! j);
       Some (ps[i := p1, j := p2])
     }"

definition innerLoop :: "physics \<Rightarrow> nat \<Rightarrow> particle list \<Rightarrow> particle list option" where
  "innerLoop phys i ps =
     fold (\<lambda>j acc. acc \<bind> pairStep phys i j) [i + 1 ..< length ps] (Some ps)"

definition calculateForces :: "physics \<Rightarrow> particle list \<Rightarrow> particle list option" where
  "calculateForces phys ps =
     fold (\<lambda>i acc. acc \<bind> innerLoop phys i) [0 ..< length ps]
       (Some (map resetAcceleration ps))"

subsection \<open>Drawing\<close>

text \<open>
  What the canvas receives: a stroked line per connection, and per particle a glow and
  a core, both centred at the particle. A colour is the prefix of the CSS colour and the
  opacity that the source appends to it.
\<close>

record segment =
  from_x :: real
  from_y :: real
  to_x :: real
  to_y :: real
  strokeColor :: string
  strokeOpacity :: real
  lineWidth :: real

record glyph =
  glyph_x :: real
  glyph_y :: real
  glowRadius :: real
  coreRadius :: real
  glyphColor :: string
  glowOpacity :: real
  coreOpacity :: real

record frame =
  connections :: "segment list"
  glyphs :: "glyph list"

definition drawParticle :: "configuration \<Rightarrow> particle \<Rightarrow> real \<Rightarrow> glyph" where
  "drawParticle cfg p time =
     (let pulse = sin (time * 0.002 + pulseOffset p) * 0.3 + 0.7;
          r = baseRadius p * pulse;
          color = (if isCyan p then color_cyan cfg else color_purple cfg);
          opacity = 0.6 + pulse * 0.2
      in \<lparr>glyph_x = px p, glyph_y = py p, glowRadius = r * 3, coreRadius = r,
          glyphColor = color, glowOpacity = opacity * 0.5, coreOpacity = opacity\<rparr>)"

text \<open>
  The body of the inner loop of \<open>drawConnections\<close> for \<open>particles[i]\<close> and
  \<open>particles[j]\<close>: the lines it strokes, none or one.
\<close>

definition drawConnection :: "configuration \<Rightarrow> particle \<Rightarrow> particle \<Rightarrow> segment list option" where
  "drawConnection cfg p q =
     (let dx = px p - px q;
          dy = py p - py q;
          distance = sqrt (dx * dx + dy * dy)
      in if distance < connectionDistance cfg then
           do {
             t \<leftarrow> jsdiv distance (connectionDistance cfg);
             let opacity = (1 - t) * 0.3;
             let chargeProduct = charge p * charge q;
             let lineColor = (if chargeProduct < 0 then color_cyan cfg else color_purple cfg);
             Some [\<lparr>from_x = px p, from_y = py p, to_x = px q, to_y = py q,
                    strokeColor = lineColor, strokeOpacity = opacity, lineWidth = 1\<rparr>]
           }
         else Some [])"

text \<open>
  The loops of \<open>drawConnections\<close> read the particles and change none, so the pairs
  \<open>i < j\<close> are the pairs of an element of the list with a later one, in the same order.
\<close>

fun drawConnectionsFrom :: "configuration \<Rightarrow> particle \<Rightarrow> particle list \<Rightarrow> segment list option" where
  "drawConnectionsFrom cfg p [] = Some []"
| "drawConnectionsFrom cfg p (q # qs) =
     do {
       l \<leftarrow> drawConnection cfg p q;
       ls \<leftarrow> drawConnectionsFrom cfg p qs;
       Some (l @ ls)
     }"

fun drawConnections :: "configuration \<Rightarrow> particle list \<Rightarrow> segment list option" where
  "drawConnections cfg [] = Some []"
| "drawConnections cfg (p # ps) =
     do {
       l \<leftarrow> drawConnectionsFrom cfg p ps;
       ls \<leftarrow> drawConnections cfg ps;
       Some (l @ ls)
     }"

subsection \<open>Moving a particle\<close>

text \<open>The steps of \<open>updateParticle\<close>, in the order of the source.\<close>

definition mouseAttraction :: "mouse \<Rightarrow> particle \<Rightarrow> particle option" where
  "mouseAttraction m p =
     (case (mouse_x m, mouse_y m) of
        (Some mx, Some my) \<Rightarrow>
          (let dx = px p - mx;
               dy = py p - my;
               distance = sqrt (dx * dx + dy * dy)
           in if distance < mouse_radius m \<and> distance > 0 then
                do {
                  t \<leftarrow> jsdiv (mouse_radius m - distance) (mouse_radius m);
                  let force = t * 0.5;
                  Some (p\<lparr>ax := ax p - (dx / distance) * force,
                          ay := ay p - (dy / distance) * force\<rparr>)
                }
              else Some p)
      | _ \<Rightarrow> Some p)"

definition applyAcceleration :: "particle \<Rightarrow> particle" where
  "applyAcceleration p = p\<lparr>vx := vx p + ax p, vy := vy p + ay p\<rparr>"

text \<open>\<open>rnd\<close> holds the results of the two calls of \<open>Math.random()\<close>.\<close>

definition brownianNoise :: "physics \<Rightarrow> real \<times> real \<Rightarrow> particle \<Rightarrow> particle" where
  "brownianNoise phys rnd p =
     p\<lparr>vx := vx p + (fst rnd - 0.5) * brownianStrength phys,
       vy := vy p + (snd rnd - 0.5) * brownianStrength phys\<rparr>"

definition applyDamping :: "physics \<Rightarrow> particle \<Rightarrow> particle" where
  "applyDamping phys p = p\<lparr>vx := vx p * damping phys, vy := vy p * damping phys\<rparr>"

text \<open>
  The clamp in the reals, where the rescaled velocity has a speed of exactly
  \<open>maxVelocity\<close>. The program rounds each operation: that clamp is \<open>clampVelocity64\<close>
  below, and the bound on the speed is stated of it.
\<close>

definition clampVelocity :: "physics \<Rightarrow> particle \<Rightarrow> particle option" where
  "clampVelocity phys p =
     (let speed = sqrt (vx p * vx p + vy p * vy p)
      in if speed > maxVelocity phys then
           do {
             ux \<leftarrow> jsdiv (vx p) speed;
             uy \<leftarrow> jsdiv (vy p) speed;
             Some (p\<lparr>vx := ux * maxVelocity phys, vy := uy * maxVelocity phys\<rparr>)
           }
         else Some p)"

definition moveParticle :: "particle \<Rightarrow> particle" where
  "moveParticle p = p\<lparr>px := px p + vx p, py := py p + vy p\<rparr>"

definition bounceX :: "canvas \<Rightarrow> particle \<Rightarrow> particle" where
  "bounceX cv p =
     (if px p < radius p then p\<lparr>px := radius p, vx := vx p * (- 0.9)\<rparr>
      else if px p > width cv - radius p
           then p\<lparr>px := width cv - radius p, vx := vx p * (- 0.9)\<rparr>
      else p)"

definition bounceY :: "canvas \<Rightarrow> particle \<Rightarrow> particle" where
  "bounceY cv p =
     (if py p < radius p then p\<lparr>py := radius p, vy := vy p * (- 0.9)\<rparr>
      else if py p > height cv - radius p
           then p\<lparr>py := height cv - radius p, vy := vy p * (- 0.9)\<rparr>
      else p)"

definition bounce :: "canvas \<Rightarrow> particle \<Rightarrow> particle" where
  "bounce cv p = bounceY cv (bounceX cv p)"

text \<open>\<open>updateParticle\<close> up to and including "Move particle".\<close>

definition integrate :: "physics \<Rightarrow> mouse \<Rightarrow> real \<times> real \<Rightarrow> particle \<Rightarrow> particle option" where
  "integrate phys m rnd p =
     do {
       p1 \<leftarrow> mouseAttraction m p;
       p2 \<leftarrow> clampVelocity phys (applyDamping phys (brownianNoise phys rnd (applyAcceleration p1)));
       Some (moveParticle p2)
     }"

definition updateParticle ::
    "physics \<Rightarrow> canvas \<Rightarrow> mouse \<Rightarrow> real \<times> real \<Rightarrow> particle \<Rightarrow> particle option" where
  "updateParticle phys cv m rnd p =
     do {
       q \<leftarrow> integrate phys m rnd p;
       Some (bounce cv q)
     }"

subsection \<open>Moving a particle, in binary64 arithmetic\<close>

text \<open>
  \<open>updateParticle\<close> once more, with every arithmetic operation of the source rounded
  to binary64. The fields of the particle, the mouse and the canvas hold binary64
  numbers; \<open>physics64\<close> gives the numbers that the literals of a configuration denote,
  and \<open>- round64 0.9\<close> is the literal \<open>-0.9\<close>.
\<close>

definition physics64 :: "physics \<Rightarrow> physics" where
  "physics64 ph =
     \<lparr>screeningLength = round64 (screeningLength ph),
      coulombStrength = round64 (coulombStrength ph),
      damping = round64 (damping ph),
      maxVelocity = round64 (maxVelocity ph),
      softening = round64 (softening ph),
      brownianStrength = round64 (brownianStrength ph)\<rparr>"

definition mouseAttraction64 :: "mouse \<Rightarrow> particle \<Rightarrow> particle option" where
  "mouseAttraction64 m p =
     (case (mouse_x m, mouse_y m) of
        (Some mx, Some my) \<Rightarrow>
          do {
            dx \<leftarrow> fsub (px p) mx;
            dy \<leftarrow> fsub (py p) my;
            xx \<leftarrow> fmul dx dx;
            yy \<leftarrow> fmul dy dy;
            ss \<leftarrow> fadd xx yy;
            distance \<leftarrow> fsqrt ss;
            if distance < mouse_radius m \<and> distance > 0 then
              do {
                t \<leftarrow> fsub (mouse_radius m) distance;
                t' \<leftarrow> fdiv t (mouse_radius m);
                force \<leftarrow> fmul t' 0.5;
                ux \<leftarrow> fdiv dx distance;
                fx \<leftarrow> fmul ux force;
                ax' \<leftarrow> fsub (ax p) fx;
                uy \<leftarrow> fdiv dy distance;
                fy \<leftarrow> fmul uy force;
                ay' \<leftarrow> fsub (ay p) fy;
                Some (p\<lparr>ax := ax', ay := ay'\<rparr>)
              }
            else Some p
          }
      | _ \<Rightarrow> Some p)"

definition applyAcceleration64 :: "particle \<Rightarrow> particle option" where
  "applyAcceleration64 p =
     do {
       vx' \<leftarrow> fadd (vx p) (ax p);
       vy' \<leftarrow> fadd (vy p) (ay p);
       Some (p\<lparr>vx := vx', vy := vy'\<rparr>)
     }"

definition brownianNoise64 :: "physics \<Rightarrow> real \<times> real \<Rightarrow> particle \<Rightarrow> particle option" where
  "brownianNoise64 phys rnd p =
     do {
       r1 \<leftarrow> fsub (fst rnd) 0.5;
       n1 \<leftarrow> fmul r1 (brownianStrength phys);
       vx' \<leftarrow> fadd (vx p) n1;
       r2 \<leftarrow> fsub (snd rnd) 0.5;
       n2 \<leftarrow> fmul r2 (brownianStrength phys);
       vy' \<leftarrow> fadd (vy p) n2;
       Some (p\<lparr>vx := vx', vy := vy'\<rparr>)
     }"

definition applyDamping64 :: "physics \<Rightarrow> particle \<Rightarrow> particle option" where
  "applyDamping64 phys p =
     do {
       vx' \<leftarrow> fmul (vx p) (damping phys);
       vy' \<leftarrow> fmul (vy p) (damping phys);
       Some (p\<lparr>vx := vx', vy := vy'\<rparr>)
     }"

text \<open>\<open>Math.sqrt(vx * vx + vy * vy)\<close>, as "Clamp to max velocity" computes it.\<close>

definition speed64 :: "particle \<Rightarrow> real option" where
  "speed64 p =
     do {
       xx \<leftarrow> fmul (vx p) (vx p);
       yy \<leftarrow> fmul (vy p) (vy p);
       ss \<leftarrow> fadd xx yy;
       fsqrt ss
     }"

definition clampVelocity64 :: "physics \<Rightarrow> particle \<Rightarrow> particle option" where
  "clampVelocity64 phys p =
     do {
       speed \<leftarrow> speed64 p;
       if speed > maxVelocity phys then
         do {
           ux \<leftarrow> fdiv (vx p) speed;
           vx' \<leftarrow> fmul ux (maxVelocity phys);
           uy \<leftarrow> fdiv (vy p) speed;
           vy' \<leftarrow> fmul uy (maxVelocity phys);
           Some (p\<lparr>vx := vx', vy := vy'\<rparr>)
         }
       else Some p
     }"

definition moveParticle64 :: "particle \<Rightarrow> particle option" where
  "moveParticle64 p =
     do {
       x' \<leftarrow> fadd (px p) (vx p);
       y' \<leftarrow> fadd (py p) (vy p);
       Some (p\<lparr>px := x', py := y'\<rparr>)
     }"

definition bounceX64 :: "canvas \<Rightarrow> particle \<Rightarrow> particle option" where
  "bounceX64 cv p =
     (if px p < radius p then
        do {
          v \<leftarrow> fmul (vx p) (- round64 0.9);
          Some (p\<lparr>px := radius p, vx := v\<rparr>)
        }
      else
        do {
          lim \<leftarrow> fsub (width cv) (radius p);
          if px p > lim then
            do {
              v \<leftarrow> fmul (vx p) (- round64 0.9);
              Some (p\<lparr>px := lim, vx := v\<rparr>)
            }
          else Some p
        })"

definition bounceY64 :: "canvas \<Rightarrow> particle \<Rightarrow> particle option" where
  "bounceY64 cv p =
     (if py p < radius p then
        do {
          v \<leftarrow> fmul (vy p) (- round64 0.9);
          Some (p\<lparr>py := radius p, vy := v\<rparr>)
        }
      else
        do {
          lim \<leftarrow> fsub (height cv) (radius p);
          if py p > lim then
            do {
              v \<leftarrow> fmul (vy p) (- round64 0.9);
              Some (p\<lparr>py := lim, vy := v\<rparr>)
            }
          else Some p
        })"

text \<open>\<open>updateParticle\<close> up to and including "Apply damping".\<close>

definition preClamp64 :: "physics \<Rightarrow> mouse \<Rightarrow> real \<times> real \<Rightarrow> particle \<Rightarrow> particle option" where
  "preClamp64 phys m rnd p =
     do {
       p1 \<leftarrow> mouseAttraction64 m p;
       p2 \<leftarrow> applyAcceleration64 p1;
       p3 \<leftarrow> brownianNoise64 phys rnd p2;
       applyDamping64 phys p3
     }"

definition updateParticle64 ::
    "physics \<Rightarrow> canvas \<Rightarrow> mouse \<Rightarrow> real \<times> real \<Rightarrow> particle \<Rightarrow> particle option" where
  "updateParticle64 phys cv m rnd p =
     do {
       p4 \<leftarrow> preClamp64 phys m rnd p;
       p5 \<leftarrow> clampVelocity64 phys p4;
       p6 \<leftarrow> moveParticle64 p5;
       p7 \<leftarrow> bounceX64 cv p6;
       bounceY64 cv p7
     }"

subsection \<open>A frame\<close>

text \<open>
  The loop of \<open>animate\<close> over the particles: each is updated, then drawn. \<open>rnd k\<close> holds
  the two random numbers that the update of the particle at index \<open>k\<close> draws.
\<close>

fun updateAndDraw ::
    "configuration \<Rightarrow> canvas \<Rightarrow> mouse \<Rightarrow> (nat \<Rightarrow> real \<times> real) \<Rightarrow> real \<Rightarrow> nat \<Rightarrow> particle list
       \<Rightarrow> (particle list \<times> glyph list) option" where
  "updateAndDraw cfg cv m rnd time k [] = Some ([], [])"
| "updateAndDraw cfg cv m rnd time k (p # ps) =
     do {
       q \<leftarrow> updateParticle (physics cfg) cv m (rnd k) p;
       let g = drawParticle cfg q time;
       (qs, gs) \<leftarrow> updateAndDraw cfg cv m rnd time (k + 1) ps;
       Some (q # qs, g # gs)
     }"

text \<open>
  \<open>TensorNetworkAnimation.animate\<close>: what one frame draws and the particles it leaves
  for the next frame.
\<close>

definition animate ::
    "configuration \<Rightarrow> canvas \<Rightarrow> mouse \<Rightarrow> (nat \<Rightarrow> real \<times> real) \<Rightarrow> real \<Rightarrow> particle list
       \<Rightarrow> (frame \<times> particle list) option" where
  "animate cfg cv m rnd time ps =
     do {
       ls \<leftarrow> drawConnections cfg ps;
       ps1 \<leftarrow> calculateForces (physics cfg) ps;
       (ps2, gs) \<leftarrow> updateAndDraw cfg cv m rnd time 0 ps1;
       Some (\<lparr>connections = ls, glyphs = gs\<rparr>, ps2)
     }"

section \<open>The inverse projection and the displayed vector\<close>

lemma quadA_val: "quadA = 259/225"
  by (simp add: quadA_def)

lemma quadA_pos: "0 < quadA"
  by (simp add: quadA_val)

lemma quad_is_sphere:
  "quadA * (t*t) + quadB dx dy * t + quadC dx dy
     = ((dx - 0.3*t)/0.9) * ((dx - 0.3*t)/0.9) + t*t + (-dy + 0.2*t) * (-dy + 0.2*t) - 1"
  by (simp add: quadA_def quadB_def quadC_def field_simps)

lemma discriminant_root:
  assumes "quadA * (t*t) + quadB dx dy * t + quadC dx dy = 0"
  shows "discriminant dx dy = (2 * quadA * t + quadB dx dy) * (2 * quadA * t + quadB dx dy)"
proof -
  have "discriminant dx dy = (2 * quadA * t + quadB dx dy) * (2 * quadA * t + quadB dx dy)
        - 4 * quadA * (quadA * (t*t) + quadB dx dy * t + quadC dx dy)"
    by (simp add: discriminant_def algebra_simps)
  with assms show ?thesis by simp
qed

lemma root1_is_root:
  assumes "0 \<le> discriminant dx dy"
  defines "t \<equiv> (- quadB dx dy + sqrt (discriminant dx dy)) / (2 * quadA)"
  shows "quadA * (t*t) + quadB dx dy * t + quadC dx dy = 0"
proof -
  have s: "sqrt (discriminant dx dy) * sqrt (discriminant dx dy) = discriminant dx dy"
    using assms(1) by simp
  have A: "quadA \<noteq> 0" using quadA_pos by simp
  have t: "2 * quadA * t = - quadB dx dy + sqrt (discriminant dx dy)"
    using A by (simp add: t_def)
  have "4 * quadA * (quadA * (t*t) + quadB dx dy * t + quadC dx dy)
      = (2 * quadA * t) * (2 * quadA * t) + 2 * quadB dx dy * (2 * quadA * t) + 4 * quadA * quadC dx dy"
    by (simp add: algebra_simps)
  also have "\<dots> = sqrt (discriminant dx dy) * sqrt (discriminant dx dy) - discriminant dx dy"
    unfolding t by (simp add: discriminant_def algebra_simps)
  also have "\<dots> = 0" using s by simp
  finally show ?thesis using A by simp
qed

lemma root2_is_root:
  assumes "0 \<le> discriminant dx dy"
  defines "t \<equiv> (- quadB dx dy - sqrt (discriminant dx dy)) / (2 * quadA)"
  shows "quadA * (t*t) + quadB dx dy * t + quadC dx dy = 0"
proof -
  have s: "sqrt (discriminant dx dy) * sqrt (discriminant dx dy) = discriminant dx dy"
    using assms(1) by simp
  have A: "quadA \<noteq> 0" using quadA_pos by simp
  have t: "2 * quadA * t = - quadB dx dy - sqrt (discriminant dx dy)"
    using A by (simp add: t_def)
  have "4 * quadA * (quadA * (t*t) + quadB dx dy * t + quadC dx dy)
      = (2 * quadA * t) * (2 * quadA * t) + 2 * quadB dx dy * (2 * quadA * t) + 4 * quadA * quadC dx dy"
    by (simp add: algebra_simps)
  also have "\<dots> = sqrt (discriminant dx dy) * sqrt (discriminant dx dy) - discriminant dx dy"
    unfolding t by (simp add: discriminant_def algebra_simps)
  also have "\<dots> = 0" using s by simp
  finally show ?thesis using A by simp
qed

lemma select_is_root:
  assumes "0 \<le> discriminant dx dy"
  shows "quadA * (spec_select_root dx dy * spec_select_root dx dy)
         + quadB dx dy * spec_select_root dx dy + quadC dx dy = 0"
proof -
  have "spec_select_root dx dy = root1 dx dy \<or> spec_select_root dx dy = root2 dx dy"
    by (auto simp: spec_select_root_def max_def)
  then show ?thesis
    using root1_is_root [OF assms] root2_is_root [OF assms]
    by (auto simp: root1_def root2_def)
qed

lemma select_on_sphere:
  assumes "0 \<le> discriminant dx dy"
  defines "t \<equiv> spec_select_root dx dy"
  shows "((dx - 0.3*t)/0.9) * ((dx - 0.3*t)/0.9) + t*t + (-dy + 0.2*t) * (-dy + 0.2*t) = 1"
  using select_is_root [OF assms(1)] quad_is_sphere [of t dx dy] by (simp add: t_def)

lemma handleMouseMove_unfold:
  assumes "0 \<le> discriminant dx dy"
  shows "handleMouseMove dx dy s =
     (let tY = spec_select_root dx dy;
          tX = (dx - 0.3*tY) / 0.9;
          tZ = -dy + 0.2*tY;
          len = sqrt (tX*tX + tY*tY + tZ*tZ)
      in if len > 0
         then s\<lparr>targetX := tX / len, targetY := tY / len, targetZ := tZ / len\<rparr>
         else s\<lparr>targetX := tX, targetY := tY, targetZ := tZ\<rparr>)"
  using assms
  by (simp only: handleMouseMove_def Let_def spec_select_root_def root1_def root2_def if_True)

lemma handleMouseMove_front:
  assumes "0 \<le> discriminant dx dy"
  defines "t \<equiv> spec_select_root dx dy"
  shows "handleMouseMove dx dy s
           = s\<lparr>targetX := (dx - 0.3*t)/0.9, targetY := t, targetZ := -dy + 0.2*t\<rparr>"
proof -
  have "((dx - 0.3*t)/0.9) * ((dx - 0.3*t)/0.9) + t*t + (-dy + 0.2*t) * (-dy + 0.2*t) = 1"
    using select_on_sphere [OF assms(1)] by (simp only: t_def)
  then have len: "sqrt (((dx - 0.3*t)/0.9) * ((dx - 0.3*t)/0.9) + t*t + (-dy + 0.2*t) * (-dy + 0.2*t)) = 1"
    by (simp only: real_sqrt_one)
  show ?thesis
    unfolding handleMouseMove_unfold [OF assms(1)] Let_def t_def [symmetric] len
    by simp
qed

lemma root2_le_root1:
  assumes "0 \<le> discriminant dx dy"
  shows "root2 dx dy \<le> root1 dx dy"
proof -
  have "0 \<le> sqrt (discriminant dx dy)" using assms by simp
  then have "- quadB dx dy - sqrt (discriminant dx dy) \<le> - quadB dx dy + sqrt (discriminant dx dy)"
    by simp
  then show ?thesis
    unfolding root1_def root2_def using quadA_pos by (simp add: divide_right_mono)
qed

lemma select_is_root1:
  assumes "0 \<le> discriminant dx dy"
  shows "spec_select_root dx dy = root1 dx dy"
  using root2_le_root1 [OF assms] by (auto simp: spec_select_root_def max_def)

lemma front_discriminant:
  assumes unit: "x*x + y*y + z*z = 1"
  defines "dx \<equiv> x * 0.9 + y * 0.3" and "dy \<equiv> - z + y * 0.2"
  shows "discriminant dx dy = (2 * (y - x/3 + z/5)) * (2 * (y - x/3 + z/5))"
    and "2 * quadA * y + quadB dx dy = 2 * (y - x/3 + z/5)"
proof -
  have xz: "(dx - 0.3*y)/0.9 = x" "- dy + 0.2*y = z"
    by (simp_all add: dx_def dy_def field_simps)
  have "quadA * (y*y) + quadB dx dy * y + quadC dx dy = 0"
    unfolding quad_is_sphere xz using unit by simp
  from discriminant_root [OF this]
  have d: "discriminant dx dy = (2 * quadA * y + quadB dx dy) * (2 * quadA * y + quadB dx dy)" .
  show l: "2 * quadA * y + quadB dx dy = 2 * (y - x/3 + z/5)"
    by (simp add: quadA_def quadB_def dx_def dy_def field_simps)
  show "discriminant dx dy = (2 * (y - x/3 + z/5)) * (2 * (y - x/3 + z/5))"
    unfolding d l ..
qed

lemma front_roundtrip:
  assumes unit: "x*x + y*y + z*z = 1" and front: "0 \<le> y - x/3 + z/5"
  shows "0 \<le> discriminant (x * 0.9 + y * 0.3) (- z + y * 0.2)"
    and "handleMouseMove (x * 0.9 + y * 0.3) (- z + y * 0.2) s
           = s\<lparr>targetX := x, targetY := y, targetZ := z\<rparr>"
proof -
  define dx where "dx = x * 0.9 + y * 0.3"
  define dy where "dy = - z + y * 0.2"
  have d: "discriminant dx dy = (2 * (y - x/3 + z/5)) * (2 * (y - x/3 + z/5))"
    and l: "2 * quadA * y + quadB dx dy = 2 * (y - x/3 + z/5)"
    using front_discriminant [OF unit] by (simp_all add: dx_def dy_def)
  show D: "0 \<le> discriminant (x * 0.9 + y * 0.3) (- z + y * 0.2)"
    unfolding dx_def [symmetric] dy_def [symmetric] d by simp
  have "sqrt (discriminant dx dy) = 2 * (y - x/3 + z/5)"
    unfolding d using front by simp
  then have "sqrt (discriminant dx dy) = 2 * quadA * y + quadB dx dy"
    using l by simp
  then have "root1 dx dy = (2 * quadA * y) / (2 * quadA)"
    by (simp add: root1_def)
  then have r: "root1 dx dy = y" using quadA_pos by simp
  have D': "0 \<le> discriminant dx dy" using D by (simp add: dx_def dy_def)
  have sel: "spec_select_root dx dy = y"
    using select_is_root1 [OF D'] r by simp
  have xz: "(dx - 0.3*y)/0.9 = x" "- dy + 0.2*y = z"
    by (simp_all add: dx_def dy_def field_simps)
  have "handleMouseMove dx dy s = s\<lparr>targetX := x, targetY := y, targetZ := z\<rparr>"
    unfolding handleMouseMove_front [OF D'] sel xz ..
  then show "handleMouseMove (x * 0.9 + y * 0.3) (- z + y * 0.2) s
           = s\<lparr>targetX := x, targetY := y, targetZ := z\<rparr>"
    by (simp only: dx_def dy_def)
qed

lemma back_point_example:
  "handleMouseMove 0.9 0 s = s\<lparr>targetX := 209/259, targetY := 150/259, targetZ := 30/259\<rparr>"
  using front_roundtrip(2) [of "209/259" "150/259" "30/259" s] by simp

lemma outside_unit_disc_example:
  "handleMouseMove (27/70) (33/35) s = s\<lparr>targetX := 2/7, targetY := 3/7, targetZ := -6/7\<rparr>"
  using front_roundtrip(2) [of "2/7" "3/7" "-6/7" s] by simp

lemma discriminant_poly:
  "discriminant dx dy = 1036/225 - (416/81) * (dx*dx) + (16/27) * (dx*dy) - (40/9) * (dy*dy)"
  by (simp add: discriminant_def quadA_def quadB_def quadC_def field_simps)

lemma far_outside_discriminant:
  assumes "107/100 \<le> dx*dx + dy*dy"
  shows "discriminant dx dy < 0"
proof -
  define S where "S = dx*dx + dy*dy"
  define Q where "Q = 250 * ((dy - 2.4*dx) * (dy - 2.4*dx)) + 210 * (dx*dx)"
  define P where "P = (416/81) * (dx*dx) - (16/27) * (dx*dy) + (40/9) * (dy*dy)"
  have Q: "0 \<le> Q" by (simp add: Q_def)
  have S: "107/100 \<le> S" using assms by (simp add: S_def)
  have "2025 * P = 8750 * S + Q"
    by (simp add: P_def S_def Q_def algebra_simps)
  with Q S have "1036/225 < P" by linarith
  moreover have "discriminant dx dy = 1036/225 - P"
    by (simp add: discriminant_poly P_def)
  ultimately show ?thesis by linarith
qed

lemma discriminant_origin_pos:
  assumes "discriminant dx dy < 0"
  shows "0 < dx*dx + dy*dy"
proof (rule ccontr)
  assume "\<not> 0 < dx*dx + dy*dy"
  moreover have "0 \<le> dx*dx" "0 \<le> dy*dy" by simp_all
  ultimately have "dx*dx = 0" "dy*dy = 0" by linarith+
  then have "dx = 0" "dy = 0" by simp_all
  then have "discriminant dx dy = 1036/225" by (simp add: discriminant_poly)
  with assms show False by simp
qed

lemma handleMouseMove_rim:
  assumes "discriminant dx dy < 0"
  defines "m \<equiv> sqrt ((dx/0.9) * (dx/0.9) + dy*dy)"
  shows "handleMouseMove dx dy s
           = s\<lparr>targetX := (dx/0.9) / m, targetY := 0, targetZ := - dy / m\<rparr>"
    and "0 < m"
proof -
  define L where "L = sqrt (dx*dx + dy*dy)"
  have L: "0 < L" using discriminant_origin_pos [OF assms(1)] by (simp add: L_def)
  have "0 < (dx/0.9) * (dx/0.9) + dy*dy"
    using discriminant_origin_pos [OF assms(1)]
    by (smt (verit) divide_eq_0_iff mult_eq_0_iff not_sum_squares_lt_zero sum_squares_eq_zero_iff)
  then show m: "0 < m" by (simp add: m_def)
  have "(dx / L / 0.9) * (dx / L / 0.9) + (- (dy / L)) * (- (dy / L))
          = ((dx/0.9) * (dx/0.9) + dy*dy) / (L*L)"
    using L by (simp add: field_simps)
  then have len: "sqrt ((dx / L / 0.9) * (dx / L / 0.9) + (- (dy / L)) * (- (dy / L))) = m / L"
    using L by (simp add: m_def real_sqrt_divide)
  have pos: "0 < m / L" using m L by simp
  have "handleMouseMove dx dy s
          = s\<lparr>targetX := (dx / L / 0.9) / (m / L), targetY := 0, targetZ := (- (dy / L)) / (m / L)\<rparr>"
    using assms(1) L pos
    by (simp only: handleMouseMove_def Let_def L_def [symmetric] len if_True if_False not_le [symmetric]
        not_False_eq_True)
  also have "(dx / L / 0.9) / (m / L) = (dx/0.9) / m" using L by simp
  also have "(- (dy / L)) / (m / L) = - dy / m" using L by simp
  finally show "handleMouseMove dx dy s
           = s\<lparr>targetX := (dx/0.9) / m, targetY := 0, targetZ := - dy / m\<rparr>" .
qed






text \<open>
  C7. With a non-negative discriminant, \<open>handleMouseMove\<close> sets the target to what the
  spec describes: the root \<open>y1\<close> if it is non-negative, else \<open>y2\<close> if that is
  non-negative, else the larger of the two; \<open>x = (dx - 0.3 y) / 0.9\<close> and
  \<open>z = - dy + 0.2 y\<close>; the vector divided by its length. The length is positive, so the
  division takes place, and the target has norm 1. The displayed vector is not touched.
\<close>

theorem root_selection:
  assumes "0 \<le> discriminant dx dy"
  shows "(case spec_front_solution dx dy of (x, y, z) \<Rightarrow>
            handleMouseMove dx dy s = s\<lparr>targetX := x, targetY := y, targetZ := z\<rparr>
          \<and> x*x + y*y + z*z = 1)"
proof -
  define t where "t = spec_select_root dx dy"
  have sph: "((dx - 0.3*t)/0.9) * ((dx - 0.3*t)/0.9) + t*t + (-dy + 0.2*t) * (-dy + 0.2*t) = 1"
    using select_on_sphere [OF assms] by (simp only: t_def)
  then have len: "sqrt (((dx - 0.3*t)/0.9) * ((dx - 0.3*t)/0.9) + t*t + (-dy + 0.2*t) * (-dy + 0.2*t)) = 1"
    by (simp only: real_sqrt_one)
  have sol: "spec_front_solution dx dy = ((dx - 0.3*t)/0.9, t, -dy + 0.2*t)"
    unfolding spec_front_solution_def Let_def t_def [symmetric] len by simp
  have "handleMouseMove dx dy s
          = s\<lparr>targetX := (dx - 0.3*t)/0.9, targetY := t, targetZ := -dy + 0.2*t\<rparr>"
    using handleMouseMove_front [OF assms] by (simp only: t_def)
  with sph show ?thesis unfolding sol by simp
qed

theorem root_selection_witness:
  "0 \<le> discriminant 0.9 0
   \<and> (case spec_front_solution 0.9 0 of (x, y, z) \<Rightarrow>
        handleMouseMove 0.9 0 bloch_init = bloch_init\<lparr>targetX := x, targetY := y, targetZ := z\<rparr>
      \<and> x*x + y*y + z*z = 1)"
  using root_selection [of "0.9" 0 bloch_init] by (simp add: discriminant_poly)

text \<open>
  C1, as the code has it. The inverse projection recovers a unit vector from its
  projected offset when the vector is the front one of the two points of the sphere
  with that offset, that is when \<open>y - x/3 + z/5 \<ge> 0\<close>: the discriminant is then
  non-negative and the target is the vector itself. The offset is the one that
  \<open>cartesianToScreen\<close> draws, relative to the centre \<open>(30, 30)\<close> and in units of the
  radius.
\<close>

theorem inverse_projection_roundtrip:
  assumes "x*x + y*y + z*z = 1" and "0 \<le> y - x/3 + z/5"
  shows "cartesianToScreen x y z 1 = (30 + (x * 0.9 + y * 0.3), 30 + (- z + y * 0.2))
       \<and> 0 \<le> discriminant (x * 0.9 + y * 0.3) (- z + y * 0.2)
       \<and> handleMouseMove (x * 0.9 + y * 0.3) (- z + y * 0.2) s
           = s\<lparr>targetX := x, targetY := y, targetZ := z\<rparr>"
  using front_roundtrip [OF assms] by (simp add: cartesianToScreen_def)

theorem inverse_projection_roundtrip_witness:
  "(3/5) * (3/5) + (4/5) * (4/5) + 0 * 0 = (1::real) \<and> (0::real) \<le> 4/5 - (3/5)/3 + 0/5
   \<and> cartesianToScreen (3/5) (4/5) 0 1 = (30 + ((3/5) * 0.9 + (4/5) * 0.3), 30 + (- 0 + (4/5) * 0.2))
   \<and> 0 \<le> discriminant ((3/5) * 0.9 + (4/5) * 0.3) (- 0 + (4/5) * 0.2)
   \<and> handleMouseMove ((3/5) * 0.9 + (4/5) * 0.3) (- 0 + (4/5) * 0.2) bloch_init
       = bloch_init\<lparr>targetX := 3/5, targetY := 4/5, targetZ := 0\<rparr>"
  using inverse_projection_roundtrip [of "3/5" "4/5" 0 bloch_init] by simp

text \<open>
  C1, as the spec states it, fails at the unit vector \<open>(1, 0, 0)\<close>: its offset is
  \<open>(0.9, 0)\<close>, the discriminant there is non-negative, and the inverse projection
  answers the other point of the sphere with that offset, whose \<open>y\<close> is \<open>150/259\<close>.
\<close>

theorem inverse_projection_roundtrip_counterexample:
  "1 * 1 + 0 * 0 + 0 * 0 = (1::real)
   \<and> 0 \<le> discriminant (1 * 0.9 + 0 * 0.3) (- 0 + 0 * 0.2)
   \<and> \<not> (\<bar>targetX (handleMouseMove (1 * 0.9 + 0 * 0.3) (- 0 + 0 * 0.2) bloch_init) - 1\<bar> \<le> 1 / 10^6
        \<and> \<bar>targetY (handleMouseMove (1 * 0.9 + 0 * 0.3) (- 0 + 0 * 0.2) bloch_init) - 0\<bar> \<le> 1 / 10^6
        \<and> \<bar>targetZ (handleMouseMove (1 * 0.9 + 0 * 0.3) (- 0 + 0 * 0.2) bloch_init) - 0\<bar> \<le> 1 / 10^6)"
  by (simp add: back_point_example discriminant_poly)

text \<open>
  C2, as the code has it. The rim branch is the branch of a negative discriminant,
  which holds every offset with \<open>dx\<^sup>2 + dy\<^sup>2 \<ge> 1.07\<close>. There the target is
  \<open>(dx / 0.9, 0, - dy)\<close> divided by its length: its \<open>y\<close> is exactly 0 and its norm is 1.
\<close>

theorem rim_clamping:
  assumes "discriminant dx dy < 0 \<or> 107/100 \<le> dx*dx + dy*dy"
  shows "discriminant dx dy < 0
       \<and> handleMouseMove dx dy s
           = s\<lparr>targetX := (dx / 0.9) / sqrt ((dx / 0.9) * (dx / 0.9) + dy * dy),
               targetY := 0,
               targetZ := - dy / sqrt ((dx / 0.9) * (dx / 0.9) + dy * dy)\<rparr>
       \<and> targetY (handleMouseMove dx dy s) = 0
       \<and> targetX (handleMouseMove dx dy s) * targetX (handleMouseMove dx dy s)
         + targetY (handleMouseMove dx dy s) * targetY (handleMouseMove dx dy s)
         + targetZ (handleMouseMove dx dy s) * targetZ (handleMouseMove dx dy s) = 1"
proof -
  define m where "m = sqrt ((dx / 0.9) * (dx / 0.9) + dy * dy)"
  have D: "discriminant dx dy < 0"
    using assms far_outside_discriminant by blast
  have h: "handleMouseMove dx dy s = s\<lparr>targetX := (dx/0.9) / m, targetY := 0, targetZ := - dy / m\<rparr>"
    and m: "0 < m"
    using handleMouseMove_rim [OF D] by (simp_all only: m_def)
  have mm: "m * m = (dx / 0.9) * (dx / 0.9) + dy * dy"
  proof -
    have "0 \<le> (dx / 0.9) * (dx / 0.9) + dy * dy" by simp
    then show ?thesis
      unfolding m_def by (rule real_sqrt_mult_self [THEN trans, OF abs_of_nonneg])
  qed
  have "((dx/0.9) / m) * ((dx/0.9) / m) + 0 * 0 + (- dy / m) * (- dy / m)
          = ((dx / 0.9) * (dx / 0.9) + dy * dy) / (m * m)"
    by (simp add: add_divide_distrib)
  also have "\<dots> = (m * m) / (m * m)" by (simp only: mm)
  also have "\<dots> = 1" using m by simp
  finally have u: "((dx/0.9) / m) * ((dx/0.9) / m) + 0 * 0 + (- dy / m) * (- dy / m) = 1" .
  show ?thesis
    unfolding m_def [symmetric] using D h u by simp
qed

theorem rim_clamping_witness:
  "(discriminant 5 0 < 0 \<or> (107/100::real) \<le> 5*5 + 0*0)
   \<and> discriminant 5 0 < 0
   \<and> handleMouseMove 5 0 bloch_init = bloch_init\<lparr>targetX := 1, targetY := 0, targetZ := 0\<rparr>"
proof -
  have "sqrt ((5 / 0.9) * (5 / 0.9) + 0 * 0) = (50/9 :: real)"
    by (rule real_sqrt_unique) (simp_all add: power2_eq_square)
  with rim_clamping [of 5 0 bloch_init] show ?thesis by simp
qed

text \<open>
  C2, as the spec states it, fails at the offset \<open>(27/70, 33/35)\<close>: its magnitude is
  greater than 1, the discriminant is not negative there, and the target is
  \<open>(2/7, 3/7, -6/7)\<close>, whose \<open>y\<close> is not 0.
\<close>

theorem rim_clamping_counterexample:
  "(27/70) * (27/70) + (33/35) * (33/35) > (1::real)
   \<and> targetY (handleMouseMove (27/70) (33/35) bloch_init) \<noteq> 0"
  by (simp add: outside_unit_disc_example)

section \<open>The particle field: forces, motion and frames\<close>

lemma jsdiv_Some: "q \<noteq> 0 \<Longrightarrow> jsdiv p q = Some (p / q)"
  by (simp add: jsdiv_def)

lemma sqrt_25: "sqrt 25 = 5"
  by (rule real_sqrt_unique) simp_all

lemma unit_direction:
  fixes u v d :: real
  assumes "d = sqrt (u*u + v*v)" and "0 < d"
  shows "(u / d) * (u / d) + (v / d) * (v / d) = 1"
proof -
  have "0 \<le> u*u + v*v" by simp
  then have dd: "d * d = u*u + v*v" using assms(1) by simp
  have "(u / d) * (u / d) + (v / d) * (v / d) = (u*u + v*v) / (d * d)"
    by (simp add: add_divide_distrib)
  also have "\<dots> = (d * d) / (d * d)" by (simp only: dd)
  also have "\<dots> = 1" using assms(2) by simp
  finally show ?thesis .
qed

lemma toward:
  fixes a u w d g :: real
  shows "a - ((u - w) / d) * g = a + g * ((w - u) / d)"
proof -
  have "(w - u) / d = - ((u - w) / d)"
    by (metis minus_diff_eq minus_divide_left)
  then show ?thesis by simp
qed

text \<open>
  C9. The pointer step of \<open>updateParticle\<close>. With the pointer absent (a \<open>null\<close>
  coordinate) the particle is left as it is. With the pointer at \<open>(mx, my)\<close>, a particle
  at a distance \<open>d\<close> with \<open>0 < d < R\<close> has \<open>f\<close> times the unit vector from the particle
  to the pointer added to its acceleration, where \<open>f = (R - d) / R * 0.5\<close> is positive;
  a particle at any other distance, \<open>d = 0\<close> included, is left as it is.
\<close>

theorem pointer_interaction:
  "(mouse_x m = None \<or> mouse_y m = None \<longrightarrow> mouseAttraction m p = Some p)
   \<and> (mouse_x m = Some mx \<and> mouse_y m = Some my \<longrightarrow>
        (let d = sqrt ((px p - mx) * (px p - mx) + (py p - my) * (py p - my));
             R = mouse_radius m;
             f = (R - d) / R * 0.5
         in if 0 < d \<and> d < R
            then mouseAttraction m p
                   = Some (p\<lparr>ax := ax p + f * ((mx - px p) / d),
                             ay := ay p + f * ((my - py p) / d)\<rparr>)
                 \<and> 0 < f
                 \<and> ((mx - px p) / d) * ((mx - px p) / d) + ((my - py p) / d) * ((my - py p) / d) = 1
            else mouseAttraction m p = Some p))"
proof (intro conjI impI)
  assume "mouse_x m = None \<or> mouse_y m = None"
  then show "mouseAttraction m p = Some p"
    by (auto simp: mouseAttraction_def split: option.splits)
next
  assume mm: "mouse_x m = Some mx \<and> mouse_y m = Some my"
  define d where "d = sqrt ((px p - mx) * (px p - mx) + (py p - my) * (py p - my))"
  define R where "R = mouse_radius m"
  define f where "f = (R - d) / R * 0.5"
  have unf: "mouseAttraction m p =
      (if d < R \<and> d > 0 then
         do {
           t \<leftarrow> jsdiv (R - d) R;
           Some (p\<lparr>ax := ax p - ((px p - mx) / d) * (t * 0.5),
                   ay := ay p - ((py p - my) / d) * (t * 0.5)\<rparr>)
         }
       else Some p)"
    using mm by (simp only: mouseAttraction_def Let_def d_def R_def prod.case option.case)
  have "if 0 < d \<and> d < R
        then mouseAttraction m p
               = Some (p\<lparr>ax := ax p + f * ((mx - px p) / d),
                         ay := ay p + f * ((my - py p) / d)\<rparr>)
             \<and> 0 < f
             \<and> ((mx - px p) / d) * ((mx - px p) / d) + ((my - py p) / d) * ((my - py p) / d) = 1
        else mouseAttraction m p = Some p"
  proof (cases "0 < d \<and> d < R")
    case True
    then have R: "R \<noteq> 0" "0 < R" by auto
    have d2: "d = sqrt ((mx - px p) * (mx - px p) + (my - py p) * (my - py p))"
      unfolding d_def by (simp add: algebra_simps)
    have a1: "ax p - ((px p - mx) / d) * ((R - d) / R * 0.5) = ax p + f * ((mx - px p) / d)"
      unfolding f_def by (rule toward)
    have a2: "ay p - ((py p - my) / d) * ((R - d) / R * 0.5) = ay p + f * ((my - py p) / d)"
      unfolding f_def by (rule toward)
    have "mouseAttraction m p
               = Some (p\<lparr>ax := ax p + f * ((mx - px p) / d),
                         ay := ay p + f * ((my - py p) / d)\<rparr>)"
    proof -
      have c: "d < R \<and> d > 0" using True by simp
      show ?thesis
        unfolding unf by (simp only: c simp_thms if_True jsdiv_Some [OF R(1)] Option.bind.simps a1 a2)
    qed
    moreover have "0 < f" using True R by (simp add: f_def)
    moreover have "((mx - px p) / d) * ((mx - px p) / d) + ((my - py p) / d) * ((my - py p) / d) = 1"
      using unit_direction [OF d2] True by simp
    ultimately show ?thesis using True by simp
  next
    case False
    then show ?thesis unfolding unf by auto
  qed
  then show "let d = sqrt ((px p - mx) * (px p - mx) + (py p - my) * (py p - my));
             R = mouse_radius m;
             f = (R - d) / R * 0.5
         in if 0 < d \<and> d < R
            then mouseAttraction m p
                   = Some (p\<lparr>ax := ax p + f * ((mx - px p) / d),
                             ay := ay p + f * ((my - py p) / d)\<rparr>)
                 \<and> 0 < f
                 \<and> ((mx - px p) / d) * ((mx - px p) / d) + ((my - py p) / d) * ((my - py p) / d) = 1
            else mouseAttraction m p = Some p"
    unfolding Let_def d_def R_def f_def .
qed

theorem pointer_interaction_witness:
  "(let p = \<lparr>px = 3, py = 4, radius = 3, vx = 0, vy = 0, isCyan = True, charge = 1,
             ax = 0, ay = 0, baseRadius = 3, pulseOffset = 0\<rparr>
    in mouse_x mouse_init = None
     \<and> mouseAttraction mouse_init p = Some p
     \<and> mouse_x (mousemove 0 0 mouse_init) = Some 0 \<and> mouse_y (mousemove 0 0 mouse_init) = Some 0
     \<and> mouseAttraction (mousemove 0 0 mouse_init) p = Some (p\<lparr>ax := - 29/100, ay := - 29/75\<rparr>))"
  using pointer_interaction
    [of mouse_init "\<lparr>px = 3, py = 4, radius = 3, vx = 0, vy = 0, isCyan = True, charge = 1,
             ax = 0, ay = 0, baseRadius = 3, pulseOffset = 0\<rparr>" 0 0]
    pointer_interaction
    [of "mousemove 0 0 mouse_init" "\<lparr>px = 3, py = 4, radius = 3, vx = 0, vy = 0, isCyan = True, charge = 1,
             ax = 0, ay = 0, baseRadius = 3, pulseOffset = 0\<rparr>" 0 0]
  by (simp add: mouse_init_def mousemove_def sqrt_25 Let_def)

lemma mouseAttraction_total: "\<exists>q. mouseAttraction m p = Some q \<and> vx q = vx p \<and> vy q = vy p"
proof (cases "mouse_x m")
  case None
  then show ?thesis by (simp add: mouseAttraction_def)
next
  case (Some mx)
  note x = this
  show ?thesis
  proof (cases "mouse_y m")
    case None
    then show ?thesis by (simp add: mouseAttraction_def x)
  next
    case (Some my)
    define d where "d = sqrt ((px p - mx) * (px p - mx) + (py p - my) * (py p - my))"
    show ?thesis
    proof (cases "d < mouse_radius m \<and> d > 0")
      case True
      then have "mouse_radius m \<noteq> 0" by auto
      from jsdiv_Some [OF this] True show ?thesis
        by (simp add: mouseAttraction_def x Some Let_def d_def [symmetric])
    next
      case False
      then show ?thesis
        by (simp only: mouseAttraction_def x Some Let_def d_def [symmetric] prod.case option.case if_False)
           simp
    qed
  qed
qed

lemma clampVelocity_bound:
  assumes "0 \<le> maxVelocity phys"
  shows "\<exists>q. clampVelocity phys p = Some q
           \<and> sqrt (vx q * vx q + vy q * vy q) \<le> maxVelocity phys"
proof -
  define s where "s = sqrt (vx p * vx p + vy p * vy p)"
  define M where "M = maxVelocity phys"
  show ?thesis
  proof (cases "s > M")
    case True
    then have s: "0 < s" "s \<noteq> 0" using assms by (auto simp: M_def)
    have c: "clampVelocity phys p = Some (p\<lparr>vx := vx p / s * M, vy := vy p / s * M\<rparr>)"
      using True
      by (simp only: clampVelocity_def Let_def s_def [symmetric] M_def [symmetric] if_True
            jsdiv_Some [OF s(2)] Option.bind.simps)
    have u: "(vx p / s) * (vx p / s) + (vy p / s) * (vy p / s) = 1"
      using unit_direction [OF s_def s(1)] .
    have "(vx p / s * M) * (vx p / s * M) + (vy p / s * M) * (vy p / s * M)
            = ((vx p / s) * (vx p / s) + (vy p / s) * (vy p / s)) * (M * M)"
      by (simp add: algebra_simps)
    also have "\<dots> = M * M" by (simp only: u mult_1)
    finally have "sqrt ((vx p / s * M) * (vx p / s * M) + (vy p / s * M) * (vy p / s * M)) = M"
      using assms by (simp add: M_def)
    then show ?thesis unfolding c M_def [symmetric] by simp
  next
    case False
    then have "clampVelocity phys p = Some p"
      by (simp only: clampVelocity_def Let_def s_def [symmetric] M_def [symmetric] if_False)
    with False show ?thesis by (simp add: s_def M_def)
  qed
qed

lemma bounce_speed:
  "sqrt (vx (bounce cv q) * vx (bounce cv q) + vy (bounce cv q) * vy (bounce cv q))
     \<le> sqrt (vx q * vx q + vy q * vy q)"
proof -
  have x: "vx (bounce cv q) = vx q \<or> vx (bounce cv q) = vx q * (- 0.9)"
    by (simp add: bounce_def bounceX_def bounceY_def)
  have y: "vy (bounce cv q) = vy q \<or> vy (bounce cv q) = vy q * (- 0.9)"
    by (simp add: bounce_def bounceX_def bounceY_def)
  have sq: "\<And>a b :: real. b = a \<or> b = a * (- 0.9) \<Longrightarrow> b * b \<le> a * a"
  proof -
    fix a b :: real
    assume "b = a \<or> b = a * (- 0.9)"
    moreover have "0.81 * (a * a) \<le> a * a" by (simp add: mult_left_le_one_le)
    ultimately show "b * b \<le> a * a" by auto
  qed
  from sq [OF x] sq [OF y] show ?thesis by simp
qed

text \<open>
  In exact arithmetic the clamp rescales to a speed of exactly \<open>maxVelocity\<close>, so the
  speed after \<open>updateParticle\<close> is at most \<open>maxVelocity\<close>. This holds of the model in
  the reals only: the rounding of the program is treated in the last section.
\<close>

lemma exact_speed_bound:
  assumes "0 \<le> maxVelocity phys"
  shows "\<exists>q. updateParticle phys cv m rnd p = Some q
           \<and> sqrt (vx q * vx q + vy q * vy q) \<le> maxVelocity phys"
proof -
  obtain p1 where p1: "mouseAttraction m p = Some p1"
    using mouseAttraction_total by blast
  obtain p2 where p2: "clampVelocity phys (applyDamping phys (brownianNoise phys rnd (applyAcceleration p1))) = Some p2"
    and b: "sqrt (vx p2 * vx p2 + vy p2 * vy p2) \<le> maxVelocity phys"
    using clampVelocity_bound [OF assms] by blast
  have u: "updateParticle phys cv m rnd p = Some (bounce cv (moveParticle p2))"
    by (simp add: updateParticle_def integrate_def p1 p2)
  have "sqrt (vx (moveParticle p2) * vx (moveParticle p2) + vy (moveParticle p2) * vy (moveParticle p2))
          \<le> maxVelocity phys"
    using b by (simp add: moveParticle_def)
  from order_trans [OF bounce_speed [of cv "moveParticle p2"] this] show ?thesis
    unfolding u by blast
qed

lemma bounce_x:
  "px (bounce cv q) = (if px q < radius q then radius q
                       else if px q > width cv - radius q then width cv - radius q else px q)"
  "vx (bounce cv q) = (if px q < radius q \<or> px q > width cv - radius q then vx q * (- 0.9) else vx q)"
  by (simp_all add: bounce_def bounceX_def bounceY_def)

lemma bounce_y:
  "py (bounce cv q) = (if py q < radius q then radius q
                       else if py q > height cv - radius q then height cv - radius q else py q)"
  "vy (bounce cv q) = (if py q < radius q \<or> py q > height cv - radius q then vy q * (- 0.9) else vy q)"
  by (simp_all add: bounce_def bounceX_def bounceY_def)

text \<open>
  C6. Let \<open>q\<close> be the particle after "Move particle". A coordinate below \<open>radius\<close> is
  set to \<open>radius\<close>, one that is not below and is above \<open>dimension - radius\<close> is set to
  \<open>dimension - radius\<close>, and in both cases the velocity component of that axis is
  multiplied by \<open>- 0.9\<close>; a coordinate inside the interval and its velocity component
  are kept. The two axes are handled separately.
\<close>

theorem reflective_boundary:
  assumes "integrate phys m rnd p = Some q"
  shows "\<exists>q'. updateParticle phys cv m rnd p = Some q'
     \<and> (px q < radius q \<longrightarrow> px q' = radius q \<and> vx q' = vx q * (- 0.9))
     \<and> (radius q \<le> px q \<and> width cv - radius q < px q
          \<longrightarrow> px q' = width cv - radius q \<and> vx q' = vx q * (- 0.9))
     \<and> (radius q \<le> px q \<and> px q \<le> width cv - radius q \<longrightarrow> px q' = px q \<and> vx q' = vx q)
     \<and> (py q < radius q \<longrightarrow> py q' = radius q \<and> vy q' = vy q * (- 0.9))
     \<and> (radius q \<le> py q \<and> height cv - radius q < py q
          \<longrightarrow> py q' = height cv - radius q \<and> vy q' = vy q * (- 0.9))
     \<and> (radius q \<le> py q \<and> py q \<le> height cv - radius q \<longrightarrow> py q' = py q \<and> vy q' = vy q)
     \<and> (px q < radius q \<or> width cv - radius q < px q
          \<longrightarrow> vx q' = vx q * (- 0.9) \<and> (px q' = radius q \<or> px q' = width cv - radius q))
     \<and> (py q < radius q \<or> height cv - radius q < py q
          \<longrightarrow> vy q' = vy q * (- 0.9) \<and> (py q' = radius q \<or> py q' = height cv - radius q))"
proof -
  have "updateParticle phys cv m rnd p = Some (bounce cv q)"
    by (simp add: updateParticle_def assms)
  then show ?thesis
    by (auto simp: bounce_x bounce_y)
qed

theorem reflective_boundary_witness:
  "(let p = \<lparr>px = 5, py = 595, radius = 3, vx = - 6, vy = 5, isCyan = False, charge = - 1,
             ax = 0, ay = 0, baseRadius = 3, pulseOffset = 0\<rparr>;
        cv = \<lparr>width = 800, height = 600\<rparr>
    in integrate (physics config) mouse_init (1/2, 1/2) p = Some (p\<lparr>px := - 1, py := 600\<rparr>)
     \<and> (\<exists>q'. updateParticle (physics config) cv mouse_init (1/2, 1/2) p = Some q'
            \<and> px q' = 3 \<and> vx q' = 27/5 \<and> py q' = 597 \<and> vy q' = - 9/2))"
proof -
  define p where "p = \<lparr>px = 5, py = 595, radius = 3, vx = - 6, vy = 5, isCyan = False, charge = - 1,
             ax = 0, ay = 0, baseRadius = 3, pulseOffset = 0 :: real\<rparr>"
  have s: "sqrt 61 \<le> 10"
    by (rule real_le_lsqrt) simp_all
  have i: "integrate (physics config) mouse_init (1/2, 1/2) p = Some (p\<lparr>px := - 1, py := 600\<rparr>)"
    using s
    by (simp add: integrate_def mouseAttraction_def mouse_init_def applyAcceleration_def
          brownianNoise_def applyDamping_def clampVelocity_def moveParticle_def config_def p_def)
  from reflective_boundary [OF i, of "\<lparr>width = 800, height = 600\<rparr>"] i
  show ?thesis
    unfolding Let_def p_def [symmetric]
    by (auto simp: p_def)
qed

lemma pairForce_opposite:
  assumes "pairForce phys p1 p2 = Some (q1, q2)"
  shows "\<exists>fx fy. q1 = p1\<lparr>ax := ax p1 - fx, ay := ay p1 - fy\<rparr>
               \<and> q2 = p2\<lparr>ax := ax p2 + fx, ay := ay p2 + fy\<rparr>"
proof (cases "sqrt ((px p2 - px p1) * (px p2 - px p1) + (py p2 - py p1) * (py p2 - py p1))
                > screeningLength phys * 2")
  case True
  then have "q1 = p1" "q2 = p2"
    using assms by (simp_all add: pairForce_def Let_def)
  then have "q1 = p1\<lparr>ax := ax p1 - 0, ay := ay p1 - 0\<rparr> \<and> q2 = p2\<lparr>ax := ax p2 + 0, ay := ay p2 + 0\<rparr>"
    by simp
  then show ?thesis by blast
next
  case False
  then show ?thesis
    using assms
    by (auto simp: pairForce_def Let_def split: Option.bind_splits)
qed

text \<open>
  C5. One iteration of the inner loop of \<open>calculateForces\<close>, for indices \<open>i < j\<close> of the
  array, changes the particles at \<open>i\<close> and \<open>j\<close> only: for some \<open>(fx, fy)\<close> the first
  has \<open>(- fx, - fy)\<close> added to its acceleration and the second \<open>(fx, fy)\<close>.
\<close>

theorem newton_third_law:
  assumes "i < j" and "j < length ps" and "pairStep phys i j ps = Some ps'"
  shows "\<exists>fx fy.
           ps' = ps[i := (ps ! i)\<lparr>ax := ax (ps ! i) - fx, ay := ay (ps ! i) - fy\<rparr>,
                    j := (ps ! j)\<lparr>ax := ax (ps ! j) + fx, ay := ay (ps ! j) + fy\<rparr>]
         \<and> ax (ps' ! i) - ax (ps ! i) = - (ax (ps' ! j) - ax (ps ! j))
         \<and> ay (ps' ! i) - ay (ps ! i) = - (ay (ps' ! j) - ay (ps ! j))"
proof -
  obtain q1 q2 where f: "pairForce phys (ps ! i) (ps ! j) = Some (q1, q2)"
    and p: "ps' = ps[i := q1, j := q2]"
    using assms(3) by (auto simp: pairStep_def split: Option.bind_splits)
  from pairForce_opposite [OF f] obtain fx fy
    where q: "q1 = (ps ! i)\<lparr>ax := ax (ps ! i) - fx, ay := ay (ps ! i) - fy\<rparr>"
             "q2 = (ps ! j)\<lparr>ax := ax (ps ! j) + fx, ay := ay (ps ! j) + fy\<rparr>"
    by blast
  have i: "ps' ! i = q1" and j: "ps' ! j = q2"
    using assms(1,2) by (simp_all add: p)
  show ?thesis
    unfolding i j using p q by auto
qed

theorem newton_third_law_witness:
  "(let pA = \<lparr>px = 0, py = 0, radius = 3, vx = 0, vy = 0, isCyan = True, charge = 1,
              ax = 0, ay = 0, baseRadius = 3, pulseOffset = 0\<rparr>;
        pB = \<lparr>px = 3, py = 4, radius = 3, vx = 0, vy = 0, isCyan = False, charge = - 1,
              ax = 0, ay = 0, baseRadius = 3, pulseOffset = 0\<rparr>;
        ps' = [pA\<lparr>ax := 24/125 * exp (- 1/20), ay := 32/125 * exp (- 1/20)\<rparr>,
               pB\<lparr>ax := - 24/125 * exp (- 1/20), ay := - 32/125 * exp (- 1/20)\<rparr>]
    in (0::nat) < 1 \<and> 1 < length [pA, pB]
     \<and> pairStep (physics config) 0 1 [pA, pB] = Some ps'
     \<and> ax (ps' ! 0) - ax ([pA, pB] ! 0) = - (ax (ps' ! 1) - ax ([pA, pB] ! 1))
     \<and> ay (ps' ! 0) - ay ([pA, pB] ! 0) = - (ay (ps' ! 1) - ay ([pA, pB] ! 1)))"
proof -
  define pA where "pA = \<lparr>px = 0, py = 0, radius = 3, vx = 0, vy = 0, isCyan = True, charge = 1,
              ax = 0, ay = 0, baseRadius = 3, pulseOffset = 0 :: real\<rparr>"
  define pB where "pB = \<lparr>px = 3, py = 4, radius = 3, vx = 0, vy = 0, isCyan = False, charge = - 1,
              ax = 0, ay = 0, baseRadius = 3, pulseOffset = 0 :: real\<rparr>"
  define ps' where "ps' = [pA\<lparr>ax := 24/125 * exp (- 1/20), ay := 32/125 * exp (- 1/20)\<rparr>,
               pB\<lparr>ax := - 24/125 * exp (- 1/20), ay := - 32/125 * exp (- 1/20)\<rparr>]"
  have e: "pairStep (physics config) 0 1 [pA, pB] = Some ps'"
    by (simp add: pairStep_def pairForce_def jsdiv_def config_def pA_def pB_def ps'_def sqrt_25)
  have l: "(0::nat) < 1" "1 < length [pA, pB]" by simp_all
  from newton_third_law [OF l e] e show ?thesis
    unfolding Let_def pA_def [symmetric] pB_def [symmetric] ps'_def [symmetric]
    by auto
qed

text \<open>
  The loops of \<open>calculateForces\<close> are folds that stop at the first division by zero;
  a property that every iteration keeps holds of the array they return.
\<close>

lemma fold_bind_None: "fold (\<lambda>j acc. acc \<bind> f j) js None = None"
  by (induction js) simp_all

lemma fold_bind_invariant:
  assumes "fold (\<lambda>j acc. acc \<bind> f j) js (Some s) = Some s'"
    and "P s"
    and "\<And>j t t'. j \<in> set js \<Longrightarrow> P t \<Longrightarrow> f j t = Some t' \<Longrightarrow> P t'"
  shows "P s'"
  using assms
proof (induction js arbitrary: s)
  case Nil
  then show ?case by simp
next
  case (Cons j js)
  show ?case
  proof (cases "f j s")
    case None
    with Cons.prems(1) show ?thesis by (simp add: fold_bind_None)
  next
    case (Some t)
    with Cons.prems(1) have f: "fold (\<lambda>j acc. acc \<bind> f j) js (Some t) = Some s'" by simp
    have t: "P t" using Cons.prems(3) [of j s t] Cons.prems(2) Some by simp
    show ?thesis
      by (rule Cons.IH [OF f t]) (use Cons.prems(3) in auto)
  qed
qed

lemma sum_list_update_real:
  fixes xs :: "real list"
  assumes "k < length xs"
  shows "sum_list (xs[k := v]) = sum_list xs + v - xs ! k"
  using assms
proof (induction xs arbitrary: k)
  case Nil
  then show ?case by simp
next
  case (Cons x xs)
  then show ?case by (cases k) simp_all
qed

lemma pairStep_total_acceleration:
  assumes "i < j" and "j < length ps" and "pairStep phys i j ps = Some ps'"
  shows "length ps' = length ps
       \<and> sum_list (map ax ps') = sum_list (map ax ps)
       \<and> sum_list (map ay ps') = sum_list (map ay ps)"
proof -
  obtain q1 q2 where f: "pairForce phys (ps ! i) (ps ! j) = Some (q1, q2)"
    and p: "ps' = ps[i := q1, j := q2]"
    using assms(3) by (auto simp: pairStep_def split: Option.bind_splits)
  from pairForce_opposite [OF f] obtain fx fy
    where q: "q1 = (ps ! i)\<lparr>ax := ax (ps ! i) - fx, ay := ay (ps ! i) - fy\<rparr>"
             "q2 = (ps ! j)\<lparr>ax := ax (ps ! j) + fx, ay := ay (ps ! j) + fy\<rparr>"
    by blast
  have ij: "i < length ps" "j < length ps" "i \<noteq> j" using assms(1,2) by simp_all
  have "sum_list (map ax ps') = sum_list (map ax ps)"
    using ij by (simp add: p q map_update sum_list_update_real)
  moreover have "sum_list (map ay ps') = sum_list (map ay ps)"
    using ij by (simp add: p q map_update sum_list_update_real)
  ultimately show ?thesis by (simp add: p)
qed

lemma innerLoop_total_acceleration:
  assumes "innerLoop phys i ps = Some ps'"
  shows "length ps' = length ps
       \<and> sum_list (map ax ps') = sum_list (map ax ps)
       \<and> sum_list (map ay ps') = sum_list (map ay ps)"
proof (rule fold_bind_invariant
    [where P = "\<lambda>t. length t = length ps \<and> sum_list (map ax t) = sum_list (map ax ps)
                  \<and> sum_list (map ay t) = sum_list (map ay ps)",
     OF assms [unfolded innerLoop_def]])
  show "length ps = length ps \<and> sum_list (map ax ps) = sum_list (map ax ps)
          \<and> sum_list (map ay ps) = sum_list (map ay ps)"
    by simp
next
  fix j t t'
  assume j: "j \<in> set [i + 1..<length ps]"
    and t: "length t = length ps \<and> sum_list (map ax t) = sum_list (map ax ps)
              \<and> sum_list (map ay t) = sum_list (map ay ps)"
    and s: "pairStep phys i j t = Some t'"
  from j t have "i < j" "j < length t" by simp_all
  from pairStep_total_acceleration [OF this s] t
  show "length t' = length ps \<and> sum_list (map ax t') = sum_list (map ax ps)
          \<and> sum_list (map ay t') = sum_list (map ay ps)"
    by simp
qed

text \<open>
  Over a whole frame the contributions cancel: when \<open>calculateForces\<close> yields finite
  numbers, the accelerations it leaves sum to zero in each component.
\<close>

lemma calculateForces_total_acceleration:
  assumes "calculateForces phys ps = Some ps'"
  shows "length ps' = length ps \<and> sum_list (map ax ps') = 0 \<and> sum_list (map ay ps') = 0"
proof (rule fold_bind_invariant
    [where P = "\<lambda>t. length t = length ps \<and> sum_list (map ax t) = 0 \<and> sum_list (map ay t) = 0",
     OF assms [unfolded calculateForces_def]])
  show "length (map resetAcceleration ps) = length ps
          \<and> sum_list (map ax (map resetAcceleration ps)) = 0
          \<and> sum_list (map ay (map resetAcceleration ps)) = 0"
    by (induction ps) (simp_all add: resetAcceleration_def)
next
  fix i t t'
  assume "length t = length ps \<and> sum_list (map ax t) = 0 \<and> sum_list (map ay t) = 0"
    and "innerLoop phys i t = Some t'"
  then show "length t' = length ps \<and> sum_list (map ax t') = 0 \<and> sum_list (map ay t') = 0"
    using innerLoop_total_acceleration [of phys i t t'] by simp
qed

lemma coincident_pairForce:
  assumes "px p1 = px p2" and "py p1 = py p2" and "0 \<le> screeningLength phys"
  shows "pairForce phys p1 p2 = None"
  using assms by (simp add: pairForce_def jsdiv_def Let_def split: Option.bind_splits)

text \<open>
  C3. \<open>calculateForces\<close> divides \<open>dx\<close> and \<open>dy\<close> by \<open>dist\<close> with no test of \<open>dist\<close>:
  for two particles at the same position the quotient is \<open>0 / 0\<close>, and the frame has
  no finite result.
\<close>

theorem coincident_particles_divide_by_zero:
  "calculateForces (physics config)
     [\<lparr>px = 100, py = 100, radius = 3, vx = 0, vy = 0, isCyan = True, charge = 1,
       ax = 0, ay = 0, baseRadius = 3, pulseOffset = 0\<rparr>,
      \<lparr>px = 100, py = 100, radius = 4, vx = 0, vy = 0, isCyan = False, charge = - 1,
       ax = 0, ay = 0, baseRadius = 4, pulseOffset = 0\<rparr>] = None"
  by (simp add: calculateForces_def innerLoop_def pairStep_def coincident_pairForce
        resetAcceleration_def config_def)

lemma drawConnection_endpoints:
  assumes "drawConnection cfg p q = Some ls" and "l \<in> set ls"
  shows "from_x l = px p \<and> from_y l = py p \<and> to_x l = px q \<and> to_y l = py q"
  using assms
  by (auto simp: drawConnection_def Let_def split: if_splits Option.bind_splits)

lemma drawConnectionsFrom_endpoints:
  assumes "drawConnectionsFrom cfg p qs = Some ls" and "l \<in> set ls"
  shows "\<exists>j < length qs. from_x l = px p \<and> from_y l = py p
           \<and> to_x l = px (qs ! j) \<and> to_y l = py (qs ! j)"
  using assms
proof (induction qs arbitrary: ls)
  case Nil
  then show ?case by simp
next
  case (Cons q qs)
  from Cons.prems(1) obtain a b where a: "drawConnection cfg p q = Some a"
    and b: "drawConnectionsFrom cfg p qs = Some b" and ls: "ls = a @ b"
    by (auto split: Option.bind_splits)
  from Cons.prems(2) ls consider "l \<in> set a" | "l \<in> set b" by auto
  then show ?case
  proof cases
    case 1
    from drawConnection_endpoints [OF a 1] show ?thesis by auto
  next
    case 2
    from Cons.IH [OF b 2] obtain j where "j < length qs"
      "from_x l = px p \<and> from_y l = py p \<and> to_x l = px (qs ! j) \<and> to_y l = py (qs ! j)"
      by blast
    then have "Suc j < length (q # qs) \<and> from_x l = px p \<and> from_y l = py p
        \<and> to_x l = px ((q # qs) ! Suc j) \<and> to_y l = py ((q # qs) ! Suc j)"
      by simp
    then show ?thesis by blast
  qed
qed

lemma drawConnections_endpoints:
  assumes "drawConnections cfg ps = Some ls" and "l \<in> set ls"
  shows "\<exists>i j. i < j \<and> j < length ps
           \<and> from_x l = px (ps ! i) \<and> from_y l = py (ps ! i)
           \<and> to_x l = px (ps ! j) \<and> to_y l = py (ps ! j)"
  using assms
proof (induction ps arbitrary: ls)
  case Nil
  then show ?case by simp
next
  case (Cons p ps)
  from Cons.prems(1) obtain a b where a: "drawConnectionsFrom cfg p ps = Some a"
    and b: "drawConnections cfg ps = Some b" and ls: "ls = a @ b"
    by (auto split: Option.bind_splits)
  from Cons.prems(2) ls consider "l \<in> set a" | "l \<in> set b" by auto
  then show ?case
  proof cases
    case 1
    from drawConnectionsFrom_endpoints [OF a 1] obtain j where "j < length ps"
      "from_x l = px p \<and> from_y l = py p \<and> to_x l = px (ps ! j) \<and> to_y l = py (ps ! j)"
      by blast
    then have "0 < Suc j \<and> Suc j < length (p # ps)
        \<and> from_x l = px ((p # ps) ! 0) \<and> from_y l = py ((p # ps) ! 0)
        \<and> to_x l = px ((p # ps) ! Suc j) \<and> to_y l = py ((p # ps) ! Suc j)"
      by simp
    then show ?thesis by blast
  next
    case 2
    from Cons.IH [OF b 2] obtain i j where "i < j" "j < length ps"
      "from_x l = px (ps ! i) \<and> from_y l = py (ps ! i)
        \<and> to_x l = px (ps ! j) \<and> to_y l = py (ps ! j)"
      by blast
    then have "Suc i < Suc j \<and> Suc j < length (p # ps)
        \<and> from_x l = px ((p # ps) ! Suc i) \<and> from_y l = py ((p # ps) ! Suc i)
        \<and> to_x l = px ((p # ps) ! Suc j) \<and> to_y l = py ((p # ps) ! Suc j)"
      by simp
    then show ?thesis by blast
  qed
qed

lemma updateAndDraw_glyphs:
  assumes "updateAndDraw cfg cv m rnd time k ps = Some (qs, gs)"
  shows "map (\<lambda>g. (glyph_x g, glyph_y g)) gs = map (\<lambda>p. (px p, py p)) qs"
  using assms
proof (induction ps arbitrary: k qs gs)
  case Nil
  then show ?case by simp
next
  case (Cons p ps)
  from Cons.prems obtain q qs' gs' where q: "updateParticle (physics cfg) cv m (rnd k) p = Some q"
    and r: "updateAndDraw cfg cv m rnd time (k + 1) ps = Some (qs', gs')"
    and e: "qs = q # qs'" "gs = drawParticle cfg q time # gs'"
    by (auto simp: Let_def split: Option.bind_splits)
  from Cons.IH [OF r] show ?case
    by (simp add: e drawParticle_def Let_def)
qed

text \<open>
  C10. Let the loop of a frame leave the array \<open>ps\<close>, having drawn the glyphs \<open>gs0\<close>,
  and let the next frame run on \<open>ps\<close>. The connections of that frame are those of
  \<open>ps\<close>, so each joins the positions at which the frame before drew the glyphs of two
  particles, whereas the glyphs of the frame are at the positions of the array it
  leaves.
\<close>

theorem connections_join_previous_positions:
  assumes "updateAndDraw cfg cv0 m0 rnd0 time0 0 ps0 = Some (ps, gs0)"
    and "animate cfg cv m rnd time ps = Some (fr, ps')"
  shows "drawConnections cfg ps = Some (connections fr)
       \<and> (\<forall>l \<in> set (connections fr). \<exists>i j. i < j \<and> j < length gs0
             \<and> from_x l = glyph_x (gs0 ! i) \<and> from_y l = glyph_y (gs0 ! i)
             \<and> to_x l = glyph_x (gs0 ! j) \<and> to_y l = glyph_y (gs0 ! j))
       \<and> map (\<lambda>g. (glyph_x g, glyph_y g)) (glyphs fr) = map (\<lambda>p. (px p, py p)) ps'"
proof -
  from assms(2) obtain ls ps1 gs where ls: "drawConnections cfg ps = Some ls"
    and u: "updateAndDraw cfg cv m rnd time 0 ps1 = Some (ps', gs)"
    and fr: "fr = \<lparr>connections = ls, glyphs = gs\<rparr>"
    by (auto simp: animate_def split: Option.bind_splits)
  have g0: "map (\<lambda>g. (glyph_x g, glyph_y g)) gs0 = map (\<lambda>p. (px p, py p)) ps"
    using updateAndDraw_glyphs [OF assms(1)] .
  then have len: "length gs0 = length ps"
    using length_map by metis
  have at: "\<And>i. i < length ps \<Longrightarrow> glyph_x (gs0 ! i) = px (ps ! i) \<and> glyph_y (gs0 ! i) = py (ps ! i)"
  proof -
    fix i assume i: "i < length ps"
    have "map (\<lambda>g. (glyph_x g, glyph_y g)) gs0 ! i = map (\<lambda>p. (px p, py p)) ps ! i"
      by (simp only: g0)
    then show "glyph_x (gs0 ! i) = px (ps ! i) \<and> glyph_y (gs0 ! i) = py (ps ! i)"
      using i len by simp
  qed
  have "\<exists>i j. i < j \<and> j < length gs0
             \<and> from_x l = glyph_x (gs0 ! i) \<and> from_y l = glyph_y (gs0 ! i)
             \<and> to_x l = glyph_x (gs0 ! j) \<and> to_y l = glyph_y (gs0 ! j)"
    if "l \<in> set ls" for l
  proof -
    from drawConnections_endpoints [OF ls that] obtain i j where ij: "i < j" "j < length ps"
      and e: "from_x l = px (ps ! i) \<and> from_y l = py (ps ! i)
         \<and> to_x l = px (ps ! j) \<and> to_y l = py (ps ! j)"
      by blast
    from ij have "i < length ps" by simp
    from at [OF this] at [OF ij(2)] e ij len
    have "i < j \<and> j < length gs0
             \<and> from_x l = glyph_x (gs0 ! i) \<and> from_y l = glyph_y (gs0 ! i)
             \<and> to_x l = glyph_x (gs0 ! j) \<and> to_y l = glyph_y (gs0 ! j)"
      by simp
    then show ?thesis by blast
  qed
  with ls updateAndDraw_glyphs [OF u] show ?thesis
    by (simp add: fr)
qed

text \<open>
  The array that a frame leaves and the glyphs it draws are those of its loop over the
  particles, run on the array that \<open>calculateForces\<close> returns.
\<close>

lemma animate_loop:
  assumes "animate cfg cv m rnd time ps = Some (fr, ps')"
  shows "\<exists>ps1. calculateForces (physics cfg) ps = Some ps1
           \<and> updateAndDraw cfg cv m rnd time 0 ps1 = Some (ps', glyphs fr)"
  using assms by (auto simp: animate_def split: Option.bind_splits)

lemma sqrt_10000: "sqrt 10000 = 100"
  by (rule real_sqrt_unique) simp_all

lemma updateParticle_free:
  assumes m: "mouse_x m = None"
    and v1: "v1 = (vx p + ax p + (fst rnd - 0.5) * brownianStrength phys) * damping phys"
    and v2: "v2 = (vy p + ay p + (snd rnd - 0.5) * brownianStrength phys) * damping phys"
    and M: "0 \<le> maxVelocity phys"
    and s: "v1 * v1 + v2 * v2 \<le> maxVelocity phys * maxVelocity phys"
    and x: "radius p \<le> px p + v1" "px p + v1 \<le> width cv - radius p"
    and y: "radius p \<le> py p + v2" "py p + v2 \<le> height cv - radius p"
  shows "updateParticle phys cv m rnd p
           = Some (p\<lparr>vx := v1, vy := v2, px := px p + v1, py := py p + v2\<rparr>)"
proof -
  define p3 where "p3 = applyDamping phys (brownianNoise phys rnd (applyAcceleration p))"
  have p3: "p3 = p\<lparr>vx := v1, vy := v2\<rparr>"
    by (simp add: p3_def applyDamping_def brownianNoise_def applyAcceleration_def v1 v2)
  have a: "mouseAttraction m p = Some p"
    by (simp add: mouseAttraction_def m)
  have "sqrt (v1 * v1 + v2 * v2) \<le> maxVelocity phys"
    using M s by (intro real_le_lsqrt) (simp_all add: power2_eq_square)
  then have c: "clampVelocity phys p3 = Some p3"
    by (simp add: clampVelocity_def p3 Let_def)
  have i: "integrate phys m rnd p = Some (moveParticle p3)"
    by (simp add: integrate_def a c p3_def [symmetric])
  have b: "bounce cv (moveParticle p3) = moveParticle p3"
    using x y by (simp add: bounce_def bounceX_def bounceY_def moveParticle_def p3)
  show ?thesis
    by (simp add: updateParticle_def i b) (simp add: moveParticle_def p3)
qed

theorem connections_join_previous_positions_witness:
  "(let A0 = \<lparr>px = 100, py = 100, radius = 3, vx = 3, vy = 4, isCyan = True, charge = 1,
              ax = 0, ay = 0, baseRadius = 3, pulseOffset = 0\<rparr>;
        B = \<lparr>px = 163, py = 184, radius = 3, vx = 0, vy = 0, isCyan = False, charge = - 1,
              ax = 0, ay = 0, baseRadius = 3, pulseOffset = 0\<rparr>;
        A = A0\<lparr>px := 103, py := 104\<rparr>;
        cv = \<lparr>width = 800, height = 600\<rparr>;
        rnd = (\<lambda>k. (1/2, 1/2))
    in updateAndDraw config cv mouse_init rnd 0 0 [A0, B]
         = Some ([A, B], [drawParticle config A 0, drawParticle config B 0])
     \<and> (\<exists>fr ps'. animate config cv mouse_init rnd 16 [A, B] = Some (fr, ps')
          \<and> connections fr
              = [\<lparr>from_x = 103, from_y = 104, to_x = 163, to_y = 184,
                  strokeColor = color_cyan config, strokeOpacity = 1/10, lineWidth = 1\<rparr>]
          \<and> map (\<lambda>g. (glyph_x g, glyph_y g)) (glyphs fr)
              = [(106 + exp (- 1) / 120, 108 + exp (- 1) / 90),
                 (163 - exp (- 1) / 120, 184 - exp (- 1) / 90)]
          \<and> map (\<lambda>p. (px p, py p)) ps'
              = [(106 + exp (- 1) / 120, 108 + exp (- 1) / 90),
                 (163 - exp (- 1) / 120, 184 - exp (- 1) / 90)]))"
proof -
  define A0 where "A0 = \<lparr>px = 100, py = 100, radius = 3, vx = 3, vy = 4, isCyan = True, charge = 1,
              ax = 0, ay = 0, baseRadius = 3, pulseOffset = 0 :: real\<rparr>"
  define B where "B = \<lparr>px = 163, py = 184, radius = 3, vx = 0, vy = 0, isCyan = False, charge = - 1,
              ax = 0, ay = 0, baseRadius = 3, pulseOffset = 0 :: real\<rparr>"
  define A where "A = A0\<lparr>px := 103, py := 104\<rparr>"
  define cv where "cv = \<lparr>width = 800, height = 600 :: real\<rparr>"
  define rnd where "rnd = (\<lambda>k :: nat. (1/2 :: real, 1/2 :: real))"
  define E where "E = exp (- 1 :: real)"
  define A1 where "A1 = A\<lparr>ax := E / 120, ay := E / 90\<rparr>"
  define B1 where "B1 = B\<lparr>ax := - E / 120, ay := - E / 90\<rparr>"
  define A2 where "A2 = A1\<lparr>vx := 3 + E / 120, vy := 4 + E / 90,
                            px := 106 + E / 120, py := 108 + E / 90\<rparr>"
  define B2 where "B2 = B1\<lparr>vx := - E / 120, vy := - E / 90,
                            px := 163 - E / 120, py := 184 - E / 90\<rparr>"
  have E: "0 < E" "E \<le> 1" by (simp_all add: E_def)
  have prev: "updateAndDraw config cv mouse_init rnd 0 0 [A0, B]
         = Some ([A, B], [drawParticle config A 0, drawParticle config B 0])"
    by (simp add: A_def A0_def B_def cv_def rnd_def updateParticle_def integrate_def
          mouseAttraction_def mouse_init_def applyAcceleration_def brownianNoise_def
          applyDamping_def clampVelocity_def moveParticle_def bounce_def bounceX_def bounceY_def
          config_def sqrt_25 Let_def)
  have dc: "drawConnections config [A, B]
           = Some [\<lparr>from_x = 103, from_y = 104, to_x = 163, to_y = 184,
                    strokeColor = color_cyan config, strokeOpacity = 1/10, lineWidth = 1\<rparr>]"
    by (simp add: A_def A0_def B_def drawConnection_def jsdiv_def config_def sqrt_10000 Let_def)
  have cf: "calculateForces (physics config) [A, B] = Some [A1, B1]"
    by (simp add: A1_def B1_def A_def A0_def B_def E_def calculateForces_def innerLoop_def
          pairStep_def pairForce_def resetAcceleration_def jsdiv_def config_def sqrt_10000 Let_def)
  have sq: "\<And>a b :: real. 0 \<le> a \<Longrightarrow> a \<le> b \<Longrightarrow> a * a \<le> b * b"
    by (simp add: mult_mono)
  have uA: "updateParticle (physics config) cv mouse_init (rnd 0) A1 = Some A2"
  proof -
    have "(3 + E / 120) * (3 + E / 120) \<le> 4 * 4" "(4 + E / 90) * (4 + E / 90) \<le> 5 * 5"
      using E by (intro sq; simp)+
    then have s: "(3 + E / 120) * (3 + E / 120) + (4 + E / 90) * (4 + E / 90) \<le> 10 * 10"
      by linarith
    have "updateParticle (physics config) cv mouse_init (rnd 0) A1
            = Some (A1\<lparr>vx := 3 + E / 120, vy := 4 + E / 90,
                       px := px A1 + (3 + E / 120), py := py A1 + (4 + E / 90)\<rparr>)"
      using s E
      by (intro updateParticle_free)
         (simp_all add: mouse_init_def config_def rnd_def cv_def A1_def A_def A0_def)
    then show ?thesis by (simp add: A2_def A1_def A_def A0_def)
  qed
  have uB: "updateParticle (physics config) cv mouse_init (rnd 1) B1 = Some B2"
  proof -
    have "(E / 120) * (E / 120) \<le> 1 * 1" "(E / 90) * (E / 90) \<le> 1 * 1"
      using E by (intro sq; simp)+
    then have s: "(- E / 120) * (- E / 120) + (- E / 90) * (- E / 90) \<le> 10 * 10"
      by simp
    have "updateParticle (physics config) cv mouse_init (rnd 1) B1
            = Some (B1\<lparr>vx := - E / 120, vy := - E / 90,
                       px := px B1 + (- E / 120), py := py B1 + (- E / 90)\<rparr>)"
      using s E
      by (intro updateParticle_free)
         (simp_all add: mouse_init_def config_def rnd_def cv_def B1_def B_def)
    then show ?thesis by (simp add: B2_def B1_def B_def)
  qed
  have an: "animate config cv mouse_init rnd 16 [A, B]
      = Some (\<lparr>connections = [\<lparr>from_x = 103, from_y = 104, to_x = 163, to_y = 184,
                    strokeColor = color_cyan config, strokeOpacity = 1/10, lineWidth = 1\<rparr>],
                glyphs = [drawParticle config A2 16, drawParticle config B2 16]\<rparr>, [A2, B2])"
    unfolding animate_def dc cf using uA uB by (simp add: Let_def)
  have pos: "map (\<lambda>p. (px p, py p)) [A2, B2]
              = [(106 + E / 120, 108 + E / 90), (163 - E / 120, 184 - E / 90)]"
    by (simp add: A2_def B2_def)
  from connections_join_previous_positions [OF prev an] prev an pos
  show ?thesis
    unfolding Let_def A0_def [symmetric] B_def [symmetric] A_def [symmetric] cv_def [symmetric]
      rnd_def [symmetric] E_def [symmetric]
    by simp
qed

section \<open>The speed of a particle in binary64 arithmetic\<close>

subsection \<open>Rounding to the nearest binary64 number\<close>

text \<open>The error of \<open>round64\<close>, and the numbers it leaves as they are.\<close>

lemma round_half_even_error: "\<bar>of_int (round_half_even y) - y\<bar> \<le> 1/2"
proof -
  have "of_int \<lfloor>y\<rfloor> \<le> y" "y < of_int \<lfloor>y\<rfloor> + 1" by linarith+
  then show ?thesis
    by (auto simp: round_half_even_def Let_def)
qed

lemma round_half_even_near:
  assumes "\<bar>y - of_int m\<bar> < 1/2"
  shows "round_half_even y = m"
proof -
  have f: "of_int \<lfloor>y\<rfloor> \<le> y" "y < of_int \<lfloor>y\<rfloor> + 1" by linarith+
  show ?thesis
  proof (cases "of_int m \<le> y")
    case True
    with assms have "of_int m \<le> y" "y < of_int m + 1" by linarith+
    then have "\<lfloor>y\<rfloor> = m" by linarith
    with assms True show ?thesis by (simp add: round_half_even_def Let_def)
  next
    case False
    with assms have "of_int (m - 1) \<le> y" "y < of_int (m - 1) + 1" by simp_all
    then have fl: "\<lfloor>y\<rfloor> = m - 1" by linarith
    have "1/2 < y - of_int (m - 1)" using assms False by simp
    then show ?thesis unfolding round_half_even_def Let_def fl by simp
  qed
qed

lemma round_half_even_int [simp]: "round_half_even (of_int m) = m"
  by (rule round_half_even_near) simp

lemma round_half_even_nonneg: "0 \<le> y \<Longrightarrow> 0 \<le> round_half_even y"
  by (auto simp: round_half_even_def Let_def)

lemma floor_log2_iff:
  assumes "x \<noteq> 0"
  shows "\<lfloor>log 2 \<bar>x\<bar>\<rfloor> = k \<longleftrightarrow> 2 powi k \<le> \<bar>x\<bar> \<and> \<bar>x\<bar> < 2 powi (k + 1)"
proof -
  have "\<lfloor>log 2 \<bar>x\<bar>\<rfloor> = k \<longleftrightarrow> 2 powr (of_int k) \<le> \<bar>x\<bar> \<and> \<bar>x\<bar> < 2 powr (of_int (k + 1))"
    using assms floor_log_eq_powr_iff [of "\<bar>x\<bar>" 2 k] by simp
  moreover have "(2::real) powr (of_int k) = 2 powi k"
    by (rule powr_real_of_int') simp_all
  moreover have "(2::real) powr (of_int (k + 1)) = 2 powi (k + 1)"
    by (rule powr_real_of_int') simp_all
  ultimately show ?thesis by simp
qed

lemma pow2_less_iff: "(2::real) powi m < 2 powi n \<longleftrightarrow> m < n"
proof
  assume l: "(2::real) powi m < 2 powi n"
  show "m < n"
  proof (rule ccontr)
    assume "\<not> m < n"
    then have "n \<le> m" by simp
    then have "(2::real) powi n \<le> 2 powi m" by (intro power_int_increasing) simp_all
    with l show False by simp
  qed
next
  assume "m < n"
  then show "(2::real) powi m < 2 powi n" by (intro power_int_strict_increasing) simp_all
qed

lemma pow2_le_iff: "(2::real) powi m \<le> 2 powi n \<longleftrightarrow> m \<le> n"
  using pow2_less_iff [of n m] by (simp add: not_less [symmetric])

lemma round64_zero [simp]: "round64 0 = 0"
  by (simp add: round64_def)

lemma round64_ulp_error:
  assumes "x \<noteq> 0"
  shows "\<bar>round64 x - x\<bar> \<le> 2 powi (binade x - 52) / 2"
proof -
  define ulp :: real where "ulp = 2 powi (binade x - 52)"
  have u: "0 < ulp" by (simp add: ulp_def)
  have r: "round64 x = of_int (round_half_even (x / ulp)) * ulp"
    using assms by (simp add: round64_def Let_def ulp_def)
  have "round64 x - x = (of_int (round_half_even (x / ulp)) - x / ulp) * ulp"
    using u by (simp add: r field_simps)
  then have "\<bar>round64 x - x\<bar> = \<bar>of_int (round_half_even (x / ulp)) - x / ulp\<bar> * ulp"
    using u by (simp add: abs_mult)
  also have "\<dots> \<le> (1/2) * ulp"
    using round_half_even_error [of "x / ulp"] u by (intro mult_right_mono) simp_all
  finally show ?thesis by (simp add: ulp_def)
qed

lemma binade_normal:
  assumes "2 powi (- 1022) \<le> \<bar>x\<bar>"
  shows "2 powi (binade x) \<le> \<bar>x\<bar>" and "- 1022 \<le> binade x"
proof -
  have x: "x \<noteq> 0" using assms
    by (metis abs_zero not_le zero_less_numeral zero_less_power_int)
  define k where "k = \<lfloor>log 2 \<bar>x\<bar>\<rfloor>"
  have k: "2 powi k \<le> \<bar>x\<bar>" "\<bar>x\<bar> < 2 powi (k + 1)"
    using floor_log2_iff [OF x, of k] by (simp_all add: k_def)
  have "(2::real) powi (- 1022) < 2 powi (k + 1)" using assms k(2) by linarith
  then have "- 1022 < k + 1" by (simp only: pow2_less_iff)
  then have b: "binade x = k" by (simp add: binade_def k_def)
  show "2 powi (binade x) \<le> \<bar>x\<bar>" using k(1) b by simp
  show "- 1022 \<le> binade x" using b \<open>- 1022 < k + 1\<close> by simp
qed

lemma half_ulp: "(2::real) powi (b - 52) / 2 = 2 powi b * unit_roundoff"
proof -
  have "(2::real) powi (b - 52) = 2 powi b / 2 powi 52"
    by (rule power_int_diff) simp
  then show ?thesis by (simp add: unit_roundoff_def)
qed

lemma round64_error_normal:
  assumes "2 powi (- 1022) \<le> \<bar>x\<bar>"
  shows "\<bar>round64 x - x\<bar> \<le> \<bar>x\<bar> * unit_roundoff"
proof -
  have x: "x \<noteq> 0" using assms
    by (metis abs_zero not_le zero_less_numeral zero_less_power_int)
  have "\<bar>round64 x - x\<bar> \<le> 2 powi (binade x) * unit_roundoff"
    using round64_ulp_error [OF x] by (simp only: half_ulp)
  also have "\<dots> \<le> \<bar>x\<bar> * unit_roundoff"
    using binade_normal(1) [OF assms] by (intro mult_right_mono) (simp_all add: unit_roundoff_def)
  finally show ?thesis .
qed

lemma binade_subnormal:
  assumes "\<bar>x\<bar> < 2 powi (- 1022)" and "x \<noteq> 0"
  shows "binade x = - 1022"
proof -
  define k where "k = \<lfloor>log 2 \<bar>x\<bar>\<rfloor>"
  have k: "2 powi k \<le> \<bar>x\<bar>"
    using floor_log2_iff [OF assms(2), of k] by (simp add: k_def)
  with assms(1) have "(2::real) powi k < 2 powi (- 1022)" by linarith
  then have "k < - 1022" by (simp only: pow2_less_iff)
  then show ?thesis by (simp add: binade_def k_def)
qed

lemma round64_error_subnormal:
  assumes "\<bar>x\<bar> < 2 powi (- 1022)"
  shows "\<bar>round64 x - x\<bar> \<le> half_min_subnormal"
proof (cases "x = 0")
  case True
  then show ?thesis by (simp add: half_min_subnormal_def)
next
  case False
  have "\<bar>round64 x - x\<bar> \<le> 2 powi (- 1022 - 52) / 2"
    using round64_ulp_error [OF False] binade_subnormal [OF assms False] by simp
  also have "\<dots> = half_min_subnormal"
    by (simp add: half_min_subnormal_def)
  finally show ?thesis .
qed

lemma round64_error:
  "\<bar>round64 x - x\<bar> \<le> \<bar>x\<bar> * unit_roundoff + half_min_subnormal"
proof (cases "2 powi (- 1022) \<le> \<bar>x\<bar>")
  case True
  from round64_error_normal [OF this] show ?thesis
    by (simp add: half_min_subnormal_def add_increasing2)
next
  case False
  then have "\<bar>x\<bar> < 2 powi (- 1022)" by simp
  from round64_error_subnormal [OF this] show ?thesis
    by (simp add: unit_roundoff_def add_increasing)
qed

lemma round64_nonneg: "0 \<le> x \<Longrightarrow> 0 \<le> round64 x"
  by (simp add: round64_def Let_def round_half_even_nonneg)

lemma round64_near:
  assumes "2 powi e \<le> \<bar>x\<bar>" and "\<bar>x\<bar> < 2 powi (e + 1)" and "- 1022 \<le> e"
    and "\<bar>x / 2 powi (e - 52) - of_int m\<bar> < 1/2"
  shows "round64 x = of_int m * 2 powi (e - 52)"
proof -
  have x: "x \<noteq> 0" using assms(1)
    by (metis abs_zero not_le zero_less_numeral zero_less_power_int)
  have "\<lfloor>log 2 \<bar>x\<bar>\<rfloor> = e"
    using floor_log2_iff [OF x, of e] assms(1,2) by simp
  then have b: "binade x = e" using assms(3) by (simp add: binade_def)
  show ?thesis
    using x round_half_even_near [OF assms(4)] by (simp add: round64_def Let_def b)
qed

lemma round64_repr:
  assumes x: "x = of_int m * 2 powi k" and m: "\<bar>m\<bar> < 2 ^ 53" and k: "- 1074 \<le> k"
  shows "round64 x = x"
proof (cases "x = 0")
  case True
  then show ?thesis by simp
next
  case False
  define j where "j = \<lfloor>log 2 \<bar>x\<bar>\<rfloor>"
  define b where "b = binade x"
  have "\<bar>x\<bar> = of_int \<bar>m\<bar> * 2 powi k"
    by (simp add: x abs_mult)
  also have "\<dots> < 2 ^ 53 * 2 powi k"
  proof -
    have "real_of_int \<bar>m\<bar> < real_of_int (2 ^ 53)" using m by (simp only: of_int_less_iff)
    then show ?thesis by (intro mult_strict_right_mono) simp_all
  qed
  also have "\<dots> = 2 powi (k + 53)"
    by (simp add: power_int_add)
  finally have up: "\<bar>x\<bar> < 2 powi (k + 53)" .
  have "2 powi j \<le> \<bar>x\<bar>"
    using floor_log2_iff [OF False, of j] by (simp add: j_def)
  with up have "(2::real) powi j < 2 powi (k + 53)" by linarith
  then have "j < k + 53" by (simp only: pow2_less_iff)
  then have bk: "b - 52 \<le> k" using k by (simp add: b_def binade_def j_def [symmetric])
  define n where "n = nat (k - (b - 52))"
  have kn: "k = (b - 52) + int n" using bk by (simp add: n_def)
  have "(2::real) powi k = 2 powi (b - 52) * 2 powi (int n)"
    by (subst kn) (simp add: power_int_add)
  then have p: "(2::real) powi k = 2 powi (b - 52) * 2 ^ n" by simp
  have q: "x / 2 powi (b - 52) = of_int (m * 2 ^ n)"
    by (simp add: x p)
  have "round64 x = of_int (round_half_even (x / 2 powi (b - 52))) * 2 powi (b - 52)"
    using False by (simp add: round64_def Let_def b_def)
  also have "\<dots> = of_int (m * 2 ^ n) * 2 powi (b - 52)"
    by (simp only: q round_half_even_int)
  also have "\<dots> = x"
    by (simp add: x p)
  finally show ?thesis .
qed

lemma round64_int:
  assumes "\<bar>n\<bar> < 2 ^ 53"
  shows "round64 (of_int n) = of_int n"
  by (rule round64_repr [of _ n 0]) (use assms in simp_all)

lemma round64_abs_le:
  "\<bar>round64 x\<bar> \<le> \<bar>x\<bar> * (1 + unit_roundoff) + half_min_subnormal"
  using round64_error [of x] by (simp add: algebra_simps)

lemma fl_Some:
  assumes "\<bar>x\<bar> \<le> 2 ^ 1023"
  shows "fl x = Some (round64 x)"
proof -
  have "\<bar>x\<bar> * (1 + unit_roundoff) \<le> 2 ^ 1023 * (1 + unit_roundoff)"
    using assms by (intro mult_right_mono) (simp_all add: unit_roundoff_def)
  moreover have "2 ^ 1023 * (1 + unit_roundoff) + half_min_subnormal < (2::real) ^ 1024"
    by (simp add: unit_roundoff_def half_min_subnormal_def)
  ultimately have "\<bar>round64 x\<bar> < 2 ^ 1024"
    using round64_abs_le [of x] by linarith
  then show ?thesis by (simp add: fl_def Let_def)
qed

subsection \<open>A step that overshoots\<close>

text \<open>
  A rounding is evaluated from the binade of the number and the multiple of the unit in
  the last place that lies within half a unit of it, or at exactly half a unit when the
  tie goes to the even multiple. The particle below has velocity \<open>(-40, -31)\<close>, no
  acceleration and no noise.
\<close>

lemma sqrt_between:
  assumes "0 \<le> lo" and "lo * lo < x" and "x < hi * hi" and "0 \<le> hi"
  shows "lo < sqrt x" and "sqrt x < hi"
proof -
  show "lo < sqrt x"
    using assms(1,2) by (intro real_less_rsqrt) (simp add: power2_eq_square)
  show "sqrt x < hi"
    using assms(3,4) by (intro real_less_lsqrt) (simp_all add: power2_eq_square)
qed

lemma round_half_even_tie:
  assumes "y = of_int f + 1/2" and "even f"
  shows "round_half_even y = f"
proof -
  have "\<lfloor>y\<rfloor> = f" using assms(1) by linarith
  then show ?thesis using assms by (simp add: round_half_even_def Let_def)
qed

lemma round64_tie:
  assumes "2 powi e \<le> \<bar>x\<bar>" and "\<bar>x\<bar> < 2 powi (e + 1)" and "- 1022 \<le> e"
    and "x / 2 powi (e - 52) = of_int f + 1/2" and "even f"
  shows "round64 x = of_int f * 2 powi (e - 52)"
proof -
  have x: "x \<noteq> 0" using assms(1)
    by (metis abs_zero not_le zero_less_numeral zero_less_power_int)
  have "\<lfloor>log 2 \<bar>x\<bar>\<rfloor> = e"
    using floor_log2_iff [OF x, of e] assms(1,2) by simp
  then have b: "binade x = e" using assms(3) by (simp add: binade_def)
  show ?thesis
    using x round_half_even_tie [OF assms(4,5)] by (simp add: round64_def Let_def b)
qed

lemma speed64: "round64 (sqrt 2561) = 7122206894618952 / 2 ^ 47"
proof -
  have b: "(7122206894618952 - 1/2) / 2 ^ 47 < sqrt 2561" "sqrt 2561 < (7122206894618952 + 1/2) / 2 ^ 47"
    by (rule sqrt_between [of "(7122206894618952 - 1/2) / 2 ^ 47" 2561 "(7122206894618952 + 1/2) / 2 ^ 47"]; simp)+
  have "round64 (sqrt 2561) = of_int 7122206894618952 * 2 powi (5 - 52)"
  proof (rule round64_near)
    show "2 powi 5 \<le> \<bar>sqrt 2561\<bar>" using b by simp
    show "\<bar>sqrt 2561\<bar> < 2 powi (5 + 1)" using b by simp
    show "- 1022 \<le> (5::int)" by simp
    have "sqrt 2561 / 2 powi (5 - 52) - of_int 7122206894618952 < 1/2"
      using b(2) by (simp add: field_simps)
    moreover have "- (sqrt 2561 / 2 powi (5 - 52) - of_int 7122206894618952) < 1/2"
      using b(1) by (simp add: field_simps)
    ultimately show "\<bar>sqrt 2561 / 2 powi (5 - 52) - of_int 7122206894618952\<bar> < 1/2"
      by (simp only: abs_less_iff)
  qed
  then show ?thesis by simp
qed

lemma qx64: "round64 (- 40 / (7122206894618952 / 2 ^ 47)) = - 7119425868888918 / 2 ^ 53"
proof -
  have "round64 (- 40 / (7122206894618952 / 2 ^ 47)) = of_int (- 7119425868888918) * 2 powi (- 1 - 52)"
    by (rule round64_near) (simp_all add: abs_less_iff)
  then show ?thesis by simp
qed

lemma vx64: "round64 (- 7119425868888918 / 2 ^ 53 * 10) = - 8899282336111148 / 2 ^ 50"
proof -
  have "round64 (- 7119425868888918 / 2 ^ 53 * 10) = of_int (- 8899282336111148) * 2 powi (2 - 52)"
    by (rule round64_tie) simp_all
  then show ?thesis by simp
qed

lemma qy64: "round64 (- 31 / (7122206894618952 / 2 ^ 47)) = - 5517555048388912 / 2 ^ 53"
proof -
  have "round64 (- 31 / (7122206894618952 / 2 ^ 47)) = of_int (- 5517555048388912) * 2 powi (- 1 - 52)"
    by (rule round64_near) (simp_all add: abs_less_iff)
  then show ?thesis by simp
qed

lemma vy64: "round64 (- 5517555048388912 / 2 ^ 53 * 10) = - 6896943810486140 / 2 ^ 50"
proof -
  have "round64 (- 5517555048388912 / 2 ^ 53 * 10) = of_int (- 6896943810486140) * 2 powi (2 - 52)"
    by (rule round64_near) (simp_all add: abs_less_iff)
  then show ?thesis by simp
qed

lemma exceeds:
  "10 < sqrt ((- 8899282336111148 / 2 ^ 50) * (- 8899282336111148 / 2 ^ 50)
            + (- 6896943810486140 / 2 ^ 50) * (- 6896943810486140 / 2 ^ 50))"
  by (rule real_less_rsqrt) simp

lemma fl_value:
  assumes "round64 x = d" and "\<bar>d\<bar> < 2 ^ 1024"
  shows "fl x = Some d"
  using assms by (simp add: fl_def Let_def)

lemma fl_repr:
  assumes "x = d" and "d = of_int m * 2 powi k" and "\<bar>m\<bar> < 2 ^ 53" and "- 1074 \<le> k"
    and "\<bar>d\<bar> < 2 ^ 1024"
  shows "fl x = Some d"
  using round64_repr [OF assms(2,3,4)] assms(1,5) by (simp add: fl_def Let_def)

lemma fl_zero [simp]: "fl 0 = Some 0"
  by (simp add: fl_def)

lemma fl_int:
  assumes "\<bar>n\<bar> < 2 ^ 53"
  shows "fl (of_int n) = Some (of_int n)"
proof (rule fl_repr [of _ _ n 0])
  have "real_of_int \<bar>n\<bar> < real_of_int (2 ^ 53)" using assms by (simp only: of_int_less_iff)
  then show "\<bar>real_of_int n\<bar> < 2 ^ 1024" by simp
qed (use assms in simp_all)

lemma physics64_config:
  "maxVelocity (physics64 (physics config)) = 10"
  "damping (physics64 (physics config)) = 1"
  "brownianStrength (physics64 (physics config)) = round64 (1/10)"
  using round64_int [of 10] round64_int [of 1]
  by (simp_all add: physics64_def config_def)

lemma overshoot_steps:
  defines "p0 \<equiv> \<lparr>px = 11, py = 10, radius = 3, vx = - 40, vy = - 31, isCyan = True, charge = 1,
              ax = 0, ay = 0, baseRadius = 3, pulseOffset = 0 :: real\<rparr>"
  defines "ph \<equiv> physics64 (physics config)"
  defines "p5 \<equiv> p0\<lparr>vx := - 8899282336111148 / 2 ^ 50, vy := - 6896943810486140 / 2 ^ 50\<rparr>"
  defines "p6 \<equiv> p5\<lparr>px := 6971233278315432 / 2 ^ 51, py := 8724110515880200 / 2 ^ 51\<rparr>"
  shows "preClamp64 ph mouse_init (1/2, 1/2) p0 = Some p0"
    and "clampVelocity64 ph p0 = Some p5"
    and "moveParticle64 p5 = Some p6"
    and "bounceX64 \<lparr>width = 800, height = 600\<rparr> p6 = Some p6"
    and "bounceY64 \<lparr>width = 800, height = 600\<rparr> p6 = Some p6"
proof -
  have i40: "fl (- 40) = Some (- 40)" and i31: "fl (- 31) = Some (- 31)"
    using fl_int [of "- 40"] fl_int [of "- 31"] by simp_all
  show "preClamp64 ph mouse_init (1/2, 1/2) p0 = Some p0"
    by (simp add: preClamp64_def mouseAttraction64_def mouse_init_def applyAcceleration64_def
          brownianNoise64_def applyDamping64_def fadd_def fsub_def fmul_def ph_def
          physics64_config p0_def i40 i31)
  have sq: "fl 1600 = Some 1600" "fl 961 = Some 961" "fl 2561 = Some 2561"
    using fl_int [of 1600] fl_int [of 961] fl_int [of 2561] by simp_all
  have s: "fl (sqrt 2561) = Some (7122206894618952 / 2 ^ 47)"
    by (rule fl_value [OF speed64]) simp
  have qx: "fl (- 40 / (7122206894618952 / 2 ^ 47)) = Some (- 7119425868888918 / 2 ^ 53)"
    by (rule fl_value [OF qx64]) simp
  have qy: "fl (- 31 / (7122206894618952 / 2 ^ 47)) = Some (- 5517555048388912 / 2 ^ 53)"
    by (rule fl_value [OF qy64]) simp
  have vx: "fl (- 7119425868888918 / 2 ^ 53 * 10) = Some (- 8899282336111148 / 2 ^ 50)"
    by (rule fl_value [OF vx64]) simp
  have vy: "fl (- 5517555048388912 / 2 ^ 53 * 10) = Some (- 6896943810486140 / 2 ^ 50)"
    by (rule fl_value [OF vy64]) simp
  have c1: "fmul (vx p0) (vx p0) = Some 1600" "fmul (vy p0) (vy p0) = Some 961"
    by (simp_all add: fmul_def p0_def sq)
  have c2: "fadd 1600 961 = Some 2561" by (simp add: fadd_def sq)
  have c3: "fsqrt 2561 = Some (7122206894618952 / 2 ^ 47)" by (simp add: fsqrt_def s)
  have c4: "fdiv (vx p0) (7122206894618952 / 2 ^ 47) = Some (- 7119425868888918 / 2 ^ 53)"
           "fdiv (vy p0) (7122206894618952 / 2 ^ 47) = Some (- 5517555048388912 / 2 ^ 53)"
    unfolding fdiv_def p0_def using qx qy by simp_all
  have c5: "fmul (- 7119425868888918 / 2 ^ 53) 10 = Some (- 8899282336111148 / 2 ^ 50)"
           "fmul (- 5517555048388912 / 2 ^ 53) 10 = Some (- 6896943810486140 / 2 ^ 50)"
    unfolding fmul_def using vx vy by simp_all
  have gt: "(7122206894618952 / 2 ^ 47 :: real) > 10" by simp
  show "clampVelocity64 ph p0 = Some p5"
    by (simp only: clampVelocity64_def speed64_def ph_def physics64_config c1 c2 c3 c4 c5 gt
          Option.bind.simps if_True p5_def)
  have m1: "fadd (px p5) (vx p5) = Some (6971233278315432 / 2 ^ 51)"
    unfolding fadd_def
    by (rule fl_repr [of _ _ 6971233278315432 "- 51"]) (simp_all add: p5_def p0_def)
  have m2: "fadd (py p5) (vy p5) = Some (8724110515880200 / 2 ^ 51)"
    unfolding fadd_def
    by (rule fl_repr [of _ _ 8724110515880200 "- 51"]) (simp_all add: p5_def p0_def)
  show "moveParticle64 p5 = Some p6"
    by (simp only: moveParticle64_def m1 m2 Option.bind.simps p6_def)
  have w: "fsub 800 3 = Some 797" "fsub 600 3 = Some 597"
    using fl_int [of 797] fl_int [of 597] by (simp_all add: fsub_def)
  show "bounceX64 \<lparr>width = 800, height = 600\<rparr> p6 = Some p6"
    by (simp add: bounceX64_def p6_def p5_def p0_def w)
  show "bounceY64 \<lparr>width = 800, height = 600\<rparr> p6 = Some p6"
    by (simp add: bounceY64_def p6_def p5_def p0_def w)
qed

subsection \<open>The speed after the clamp\<close>

text \<open>
  The computed speed and the exact one differ by the four roundings of
  \<open>Math.sqrt(vx * vx + vy * vy)\<close>; the rescaled components by the two roundings of
  \<open>(v / speed) * maxVelocity\<close>.
\<close>

lemma round64_lower:
  assumes "0 \<le> x"
  shows "x * (1 - 1 / 2 ^ 53) \<le> round64 x + half_min_subnormal"
proof -
  have "\<bar>round64 x - x\<bar> \<le> x * (1 / 2 ^ 53) + half_min_subnormal"
    using round64_error [of x] assms by (simp add: unit_roundoff_def)
  then have "x - round64 x \<le> x * (1 / 2 ^ 53) + half_min_subnormal" by linarith
  then show ?thesis by (simp add: algebra_simps)
qed

lemma round64_upper:
  "\<bar>round64 x\<bar> \<le> \<bar>x\<bar> * (1 + 1 / 2 ^ 53) + half_min_subnormal"
  using round64_abs_le [of x] by (simp add: unit_roundoff_def)

lemma floor_nonneg:
  fixes Y :: real
  assumes "1 / 2 ^ 500 \<le> Y"
  shows "0 \<le> Y"
proof -
  have "(0::real) \<le> 1 / 2 ^ 500" by simp
  from this assms show ?thesis by (rule order_trans)
qed

lemma tiny_absorbed:
  assumes "1 / 2 ^ 500 \<le> (Y::real)"
  shows "half_min_subnormal \<le> Y / 2 ^ 70" and "half_min_subnormal \<le> Y * Y / 2 ^ 70"
proof -
  have Y0: "0 \<le> Y" using assms by (rule floor_nonneg)
  have "half_min_subnormal \<le> (1 / 2 ^ 500) / 2 ^ 70"
    by (simp add: half_min_subnormal_def)
  also have "\<dots> \<le> Y / 2 ^ 70"
    using assms by (intro divide_right_mono) simp_all
  finally show "half_min_subnormal \<le> Y / 2 ^ 70" .
  have "(1 / 2 ^ 500) * (1 / 2 ^ 500) \<le> Y * Y"
    using assms by (intro mult_mono) simp_all
  then have "(1 / 2 ^ 500) * (1 / 2 ^ 500) / 2 ^ 70 \<le> Y * Y / 2 ^ 70"
    by (intro divide_right_mono) simp_all
  moreover have "half_min_subnormal \<le> (1 / 2 ^ 500) * (1 / 2 ^ 500) / 2 ^ 70"
    by (simp add: half_min_subnormal_def)
  ultimately show "half_min_subnormal \<le> Y * Y / 2 ^ 70" by linarith
qed

lemma square_mono:
  fixes x y :: real
  assumes "0 \<le> x" and "x \<le> y"
  shows "x * x \<le> y * y"
  using assms by (intro mult_mono) simp_all

lemma speed_estimate:
  fixes a b Y :: real
  defines "t3 \<equiv> round64 (round64 (a * a) + round64 (b * b))"
  assumes s: "round64 (sqrt t3) \<le> Y" and Y: "1 / 2 ^ 500 \<le> Y"
  shows "a * a + b * b \<le> Y * Y * (1 + 1 / 2 ^ 50)"
proof -
  define h where "h = half_min_subnormal"
  define t1 where "t1 = round64 (a * a)"
  define t2 where "t2 = round64 (b * b)"
  define aa where "aa = a * a"
  define bb where "bb = b * b"
  define YY where "YY = Y * Y"
  have Y0: "0 \<le> Y" using Y by (rule floor_nonneg)
  have n: "0 \<le> t1" "0 \<le> t2" by (simp_all add: t1_def t2_def round64_nonneg)
  then have n3: "0 \<le> t3" by (simp add: t3_def t1_def t2_def round64_nonneg)
  have h: "h \<le> Y / 2 ^ 70" "h \<le> YY / 2 ^ 70"
    using tiny_absorbed [OF Y] by (simp_all add: h_def YY_def)
  have e1: "aa * (1 - 1 / 2 ^ 53) \<le> t1 + h"
    using round64_lower [of "a * a"] by (simp add: aa_def t1_def h_def)
  have e2: "bb * (1 - 1 / 2 ^ 53) \<le> t2 + h"
    using round64_lower [of "b * b"] by (simp add: bb_def t2_def h_def)
  have e3: "(t1 + t2) * (1 - 1 / 2 ^ 53) \<le> t3 + h"
    using round64_lower [of "t1 + t2"] n by (simp add: t3_def t1_def t2_def h_def)
  have "sqrt t3 * (1 - 1 / 2 ^ 53) \<le> round64 (sqrt t3) + h"
    using round64_lower [of "sqrt t3"] n3 by (simp add: h_def)
  with s h(1) have e4: "sqrt t3 * (1 - 1 / 2 ^ 53) \<le> Y * (1 + 1 / 2 ^ 70)"
    by (simp add: algebra_simps)
  define w :: real where "w = 1 - 1 / 2 ^ 53"
  define g :: real where "g = 1 + 1 / 2 ^ 70"
  have w0: "0 \<le> w" by (simp add: w_def)
  have e4': "sqrt t3 * w \<le> Y * g" using e4 by (simp only: w_def g_def)
  have "0 \<le> sqrt t3 * w" using n3 w0 by simp
  from square_mono [OF this e4']
  have "(sqrt t3 * sqrt t3) * (w * w) \<le> (Y * Y) * (g * g)"
    by (simp only: mult_ac)
  moreover have "sqrt t3 * sqrt t3 = t3" using n3 by simp
  ultimately have e5: "t3 * ((1 - 1 / 2 ^ 53) * (1 - 1 / 2 ^ 53))
          \<le> YY * ((1 + 1 / 2 ^ 70) * (1 + 1 / 2 ^ 70))"
    by (simp only: w_def g_def YY_def)
  have "aa + bb \<le> YY * (1 + 1 / 2 ^ 50)"
    using e1 e2 e3 e5 h(2) n n3 by simp
  then show ?thesis by (simp add: aa_def bb_def YY_def)
qed

lemma abs_square_le:
  fixes x :: real
  assumes "\<bar>x\<bar> \<le> y"
  shows "x * x \<le> y * y"
proof -
  have "\<bar>x\<bar> * \<bar>x\<bar> \<le> y * y" using assms by (intro square_mono) simp_all
  then show ?thesis by simp
qed

lemma rescale_bound:
  fixes a s M :: real
  assumes s: "0 < s" and M: "1 / 2 ^ 500 \<le> M" "M \<le> 2 ^ 500"
    and r: "\<bar>a\<bar> / s \<le> 2"
  shows "\<bar>a / s\<bar> \<le> 2 ^ 1023"
    and "\<bar>round64 (a / s) * M\<bar> \<le> 2 ^ 1023"
    and "\<bar>round64 (round64 (a / s) * M)\<bar>
           \<le> (\<bar>a\<bar> * M / s) * ((1 + 1 / 2 ^ 53) * (1 + 1 / 2 ^ 53)) + M / 2 ^ 60"
proof -
  define h where "h = half_min_subnormal"
  define P where "P = \<bar>a\<bar> * M / s"
  define q where "q = round64 (a / s)"
  have M0: "0 \<le> M" using M(1) by (rule floor_nonneg)
  have as: "\<bar>a / s\<bar> = \<bar>a\<bar> / s" using s by simp
  show "\<bar>a / s\<bar> \<le> 2 ^ 1023" using r by (simp only: as) simp
  have h: "h \<le> 1 / 2 ^ 1000" "0 \<le> h" "h \<le> M / 2 ^ 70"
    using tiny_absorbed(1) [OF M(1)] by (simp_all add: h_def half_min_subnormal_def)
  have q: "\<bar>q\<bar> \<le> \<bar>a\<bar> / s * (1 + 1 / 2 ^ 53) + h"
    using round64_upper [of "a / s"] by (simp only: q_def as h_def)
  then have q3: "\<bar>q\<bar> \<le> 3" using r h(1) by simp
  have qM: "\<bar>q * M\<bar> = \<bar>q\<bar> * M" using M0 by (simp add: abs_mult)
  have "\<bar>q\<bar> * M \<le> 3 * 2 ^ 500" using q3 M(2) M0 by (intro mult_mono) simp_all
  then show "\<bar>round64 (a / s) * M\<bar> \<le> 2 ^ 1023"
    by (simp only: q_def [symmetric] qM) simp
  have "\<bar>q\<bar> * M \<le> (\<bar>a\<bar> / s * (1 + 1 / 2 ^ 53) + h) * M"
    using q M0 by (intro mult_right_mono)
  also have "\<dots> = P * (1 + 1 / 2 ^ 53) + h * M"
    by (simp add: P_def algebra_simps)
  finally have qP: "\<bar>q\<bar> * M \<le> P * (1 + 1 / 2 ^ 53) + h * M" .
  have hM: "h * M \<le> (1 / 2 ^ 1000) * M" using h(1) M0 by (intro mult_right_mono)
  have "\<bar>round64 (q * M)\<bar> \<le> \<bar>q\<bar> * M * (1 + 1 / 2 ^ 53) + h"
    using round64_upper [of "q * M"] by (simp only: qM h_def)
  with qP hM h(3) M0
  have "\<bar>round64 (q * M)\<bar> \<le> P * ((1 + 1 / 2 ^ 53) * (1 + 1 / 2 ^ 53)) + M / 2 ^ 60"
    by simp
  then show "\<bar>round64 (round64 (a / s) * M)\<bar>
           \<le> (\<bar>a\<bar> * M / s) * ((1 + 1 / 2 ^ 53) * (1 + 1 / 2 ^ 53)) + M / 2 ^ 60"
    by (simp only: q_def P_def)
qed

lemma ratio_le_2:
  fixes a b s :: real
  assumes s: "0 < s" and est: "a * a + b * b \<le> s * s * (1 + 1 / 2 ^ 50)"
  shows "\<bar>a\<bar> / s \<le> 2"
proof (rule ccontr)
  assume "\<not> \<bar>a\<bar> / s \<le> 2"
  then have "2 * s < \<bar>a\<bar>" using s by (simp add: field_simps)
  moreover have "0 \<le> 2 * s" using s by simp
  ultimately have "(2 * s) * (2 * s) \<le> \<bar>a\<bar> * \<bar>a\<bar>" by (intro square_mono) simp_all
  then have l: "4 * (s * s) \<le> a * a" by simp
  define aa bb ss where "aa = a * a" and "bb = b * b" and "ss = s * s"
  have ss: "0 < ss" using s by (simp add: ss_def)
  have "4 * ss \<le> aa" "0 \<le> bb" "aa + bb \<le> ss * (1 + 1 / 2 ^ 50)"
    using l est by (simp_all only: aa_def bb_def ss_def zero_le_square)
  moreover have "ss * (1 + 1 / 2 ^ 50) \<le> 2 * ss" using ss by simp
  ultimately show False using ss by linarith
qed

lemma rescaled_speed:
  fixes a b s M x y :: real
  defines "c \<equiv> (1 + 1 / 2 ^ 53) * (1 + 1 / 2 ^ 53)"
  assumes s: "0 < s" and M: "0 \<le> M"
    and est: "a * a + b * b \<le> s * s * (1 + 1 / 2 ^ 50)"
    and x: "\<bar>x\<bar> \<le> (\<bar>a\<bar> * M / s) * c + M / 2 ^ 60"
    and y: "\<bar>y\<bar> \<le> (\<bar>b\<bar> * M / s) * c + M / 2 ^ 60"
  shows "x * x + y * y \<le> M * M * (1 + 1 / 2 ^ 49)"
proof -
  define P where "P = \<bar>a\<bar> * M / s"
  define Q where "Q = \<bar>b\<bar> * M / s"
  define MM where "MM = M * M"
  define PP where "PP = P * P"
  define QQ where "QQ = Q * Q"
  define MP where "MP = M * P"
  define MQ where "MQ = M * Q"
  have MM0: "0 \<le> MM" by (simp add: MM_def)
  have r: "\<bar>a\<bar> / s \<le> 2" "\<bar>b\<bar> / s \<le> 2"
    using ratio_le_2 [OF s est] ratio_le_2 [OF s, of b a] est by (simp_all add: add.commute)
  have "MP = MM * (\<bar>a\<bar> / s)" by (simp add: MP_def MM_def P_def)
  also have "\<dots> \<le> MM * 2" using r(1) MM0 by (intro mult_left_mono)
  finally have MP: "MP \<le> 2 * MM" by simp
  have "MQ = MM * (\<bar>b\<bar> / s)" by (simp add: MQ_def MM_def Q_def)
  also have "\<dots> \<le> MM * 2" using r(2) MM0 by (intro mult_left_mono)
  finally have MQ: "MQ \<le> 2 * MM" by simp
  have "PP + QQ = (a * a + b * b) * (MM / (s * s))"
    using s by (simp add: PP_def QQ_def P_def Q_def MM_def field_simps)
  also have "\<dots> \<le> (s * s * (1 + 1 / 2 ^ 50)) * (MM / (s * s))"
    using est MM0 s by (intro mult_right_mono) simp_all
  also have "\<dots> = MM * (1 + 1 / 2 ^ 50)"
    using s by simp
  finally have PQ: "PP + QQ \<le> MM * (1 + 1 / 2 ^ 50)" .
  have "x * x \<le> (P * c + M / 2 ^ 60) * (P * c + M / 2 ^ 60)"
    using x by (intro abs_square_le) (simp only: P_def)
  also have "\<dots> = PP * (c * c) + MP * (2 * c / 2 ^ 60) + MM / (2 ^ 60 * 2 ^ 60)"
    by (simp add: PP_def MP_def MM_def algebra_simps)
  finally have xx: "x * x \<le> PP * (c * c) + MP * (2 * c / 2 ^ 60) + MM / (2 ^ 60 * 2 ^ 60)" .
  have "y * y \<le> (Q * c + M / 2 ^ 60) * (Q * c + M / 2 ^ 60)"
    using y by (intro abs_square_le) (simp only: Q_def)
  also have "\<dots> = QQ * (c * c) + MQ * (2 * c / 2 ^ 60) + MM / (2 ^ 60 * 2 ^ 60)"
    by (simp add: QQ_def MQ_def MM_def algebra_simps)
  finally have yy: "y * y \<le> QQ * (c * c) + MQ * (2 * c / 2 ^ 60) + MM / (2 ^ 60 * 2 ^ 60)" .
  have "x * x + y * y \<le> MM * (1 + 1 / 2 ^ 49)"
    using xx yy PQ MP MQ MM0 unfolding c_def by simp
  then show ?thesis by (simp only: MM_def)
qed

lemma clampVelocity64_bound:
  assumes v: "\<bar>vx p\<bar> \<le> 2 ^ 500" "\<bar>vy p\<bar> \<le> 2 ^ 500"
    and M: "1 / 2 ^ 500 \<le> maxVelocity phys" "maxVelocity phys \<le> 2 ^ 500"
  shows "\<exists>q. clampVelocity64 phys p = Some q
           \<and> vx q * vx q + vy q * vy q
               \<le> maxVelocity phys * maxVelocity phys * (1 + 1 / 2 ^ 49)
           \<and> \<bar>vx q\<bar> \<le> 2 ^ 502 \<and> \<bar>vy q\<bar> \<le> 2 ^ 502
           \<and> px q = px p \<and> py q = py p \<and> radius q = radius p"
proof -
  define a where "a = vx p"
  define b where "b = vy p"
  define Mx where "Mx = maxVelocity phys"
  define t1 where "t1 = round64 (a * a)"
  define t2 where "t2 = round64 (b * b)"
  define t3 where "t3 = round64 (t1 + t2)"
  define s where "s = round64 (sqrt t3)"
  define h where "h = half_min_subnormal"
  have h: "0 \<le> h" "h \<le> 1" by (simp_all add: h_def half_min_subnormal_def)
  have M0: "0 \<le> Mx" using floor_nonneg [OF M(1)] by (simp only: Mx_def)
  have aa: "\<bar>a * a\<bar> \<le> 2 ^ 500 * 2 ^ 500" "\<bar>b * b\<bar> \<le> 2 ^ 500 * 2 ^ 500"
    using v by (simp_all only: abs_mult a_def b_def) (intro mult_mono; simp)+
  then have aa': "\<bar>a * a\<bar> \<le> 2 ^ 1023" "\<bar>b * b\<bar> \<le> 2 ^ 1023" by simp_all
  have f1: "fmul a a = Some t1" "fmul b b = Some t2"
    using fl_Some [OF aa'(1)] fl_Some [OF aa'(2)] by (simp_all add: fmul_def t1_def t2_def)
  have t12: "\<bar>t1\<bar> \<le> 2 ^ 1001" "\<bar>t2\<bar> \<le> 2 ^ 1001"
    using round64_upper [of "a * a"] round64_upper [of "b * b"] aa h
    by (simp_all add: t1_def t2_def h_def [symmetric])
  then have s12: "\<bar>t1 + t2\<bar> \<le> 2 ^ 1002" by simp
  then have f2: "fadd t1 t2 = Some t3"
    using fl_Some [of "t1 + t2"] by (simp add: fadd_def t3_def)
  have t3: "\<bar>t3\<bar> \<le> 2 ^ 1004"
    using round64_upper [of "t1 + t2"] s12 h by (simp add: t3_def h_def [symmetric])
  have n: "0 \<le> t1" "0 \<le> t2" by (simp_all add: t1_def t2_def round64_nonneg)
  then have n3: "0 \<le> t3" by (simp add: t3_def round64_nonneg)
  have "sqrt t3 \<le> 2 ^ 502"
    using t3 n3 by (intro real_le_lsqrt) (simp_all add: power2_eq_square)
  then have "\<bar>sqrt t3\<bar> \<le> 2 ^ 1023" using n3 by simp
  then have f3: "fsqrt t3 = Some s"
    using n3 fl_Some [of "sqrt t3"] by (simp add: fsqrt_def s_def)
  have s0: "0 \<le> s" using n3 by (simp add: s_def round64_nonneg)
  have unf: "clampVelocity64 phys p =
      (if s > Mx then
         do {
           ux \<leftarrow> fdiv a s;
           vx' \<leftarrow> fmul ux Mx;
           uy \<leftarrow> fdiv b s;
           vy' \<leftarrow> fmul uy Mx;
           Some (p\<lparr>vx := vx', vy := vy'\<rparr>)
         }
       else Some p)"
    by (simp only: clampVelocity64_def speed64_def a_def [symmetric] b_def [symmetric]
          Mx_def [symmetric] f1 f2 f3 Option.bind.simps)
  show ?thesis
  proof (cases "s > Mx")
    case True
    then have sp: "0 < s" and sM: "1 / 2 ^ 500 \<le> s" using M(1) M0 by (simp_all add: Mx_def)
    have est: "a * a + b * b \<le> s * s * (1 + 1 / 2 ^ 50)"
      using speed_estimate [of a b s] sM by (simp add: s_def t3_def t2_def t1_def)
    have est': "b * b + a * a \<le> s * s * (1 + 1 / 2 ^ 50)"
      using est by (simp add: add.commute)
    have Mr: "1 / 2 ^ 500 \<le> Mx" "Mx \<le> 2 ^ 500" using M by (simp_all add: Mx_def)
    note ra = rescale_bound [OF sp Mr ratio_le_2 [OF sp est]]
    note rb = rescale_bound [OF sp Mr ratio_le_2 [OF sp est']]
    define x where "x = round64 (round64 (a / s) * Mx)"
    define y where "y = round64 (round64 (b / s) * Mx)"
    have d: "fdiv a s = Some (round64 (a / s))" "fdiv b s = Some (round64 (b / s))"
      using sp fl_Some [OF ra(1)] fl_Some [OF rb(1)] by (simp_all add: fdiv_def)
    have m: "fmul (round64 (a / s)) Mx = Some x" "fmul (round64 (b / s)) Mx = Some y"
      using fl_Some [OF ra(2)] fl_Some [OF rb(2)] by (simp_all add: fmul_def x_def y_def)
    have c: "clampVelocity64 phys p = Some (p\<lparr>vx := x, vy := y\<rparr>)"
      using True by (simp only: unf if_True d m Option.bind.simps)
    have xy: "x * x + y * y \<le> Mx * Mx * (1 + 1 / 2 ^ 49)"
      using rescaled_speed [OF sp M0 est, of x y] ra(3) rb(3) by (simp only: x_def y_def)
    have P: "\<bar>a\<bar> * Mx / s \<le> 2 * 2 ^ 500" "\<bar>b\<bar> * Mx / s \<le> 2 * 2 ^ 500"
    proof -
      have "\<bar>a\<bar> * Mx / s = (\<bar>a\<bar> / s) * Mx" by simp
      also have "\<dots> \<le> 2 * 2 ^ 500"
        using ratio_le_2 [OF sp est] Mr(2) M0 sp by (intro mult_mono) simp_all
      finally show "\<bar>a\<bar> * Mx / s \<le> 2 * 2 ^ 500" .
      have "\<bar>b\<bar> * Mx / s = (\<bar>b\<bar> / s) * Mx" by simp
      also have "\<dots> \<le> 2 * 2 ^ 500"
        using ratio_le_2 [OF sp est'] Mr(2) M0 sp by (intro mult_mono) simp_all
      finally show "\<bar>b\<bar> * Mx / s \<le> 2 * 2 ^ 500" .
    qed
    have big: "\<And>z Pz. \<bar>z\<bar> \<le> Pz * ((1 + 1 / 2 ^ 53) * (1 + 1 / 2 ^ 53)) + Mx / 2 ^ 60
                 \<Longrightarrow> 0 \<le> Pz \<Longrightarrow> Pz \<le> 2 * 2 ^ 500 \<Longrightarrow> \<bar>z\<bar> \<le> 2 ^ 502"
    proof -
      fix z Pz :: real
      assume z: "\<bar>z\<bar> \<le> Pz * ((1 + 1 / 2 ^ 53) * (1 + 1 / 2 ^ 53)) + Mx / 2 ^ 60"
        and Pz: "0 \<le> Pz" "Pz \<le> 2 * 2 ^ 500"
      have "Pz * ((1 + 1 / 2 ^ 53) * (1 + 1 / 2 ^ 53)) \<le> Pz * (3 / 2)"
        using Pz(1) by (intro mult_left_mono) simp_all
      moreover have "Mx / 2 ^ 60 \<le> Mx" using M0 by (simp add: field_simps)
      ultimately have "\<bar>z\<bar> \<le> Pz * (3 / 2) + Mx" using z by linarith
      also have "\<dots> \<le> (2 * 2 ^ 500) * (3 / 2) + 2 ^ 500"
        using Pz(2) Mr(2) by (intro add_mono mult_right_mono) simp_all
      also have "\<dots> \<le> 2 ^ 502" by simp
      finally show "\<bar>z\<bar> \<le> 2 ^ 502" .
    qed
    have P0: "0 \<le> \<bar>a\<bar> * Mx / s" "0 \<le> \<bar>b\<bar> * Mx / s" using M0 sp by simp_all
    have "\<bar>x\<bar> \<le> 2 ^ 502" "\<bar>y\<bar> \<le> 2 ^ 502"
      using big [OF ra(3) P0(1) P(1)] big [OF rb(3) P0(2) P(2)] by (simp_all only: x_def y_def)
    with xy show ?thesis
      unfolding c by (simp add: Mx_def)
  next
    case False
    then have c: "clampVelocity64 phys p = Some p" by (simp only: unf if_False)
    have "s \<le> Mx" using False by simp
    then have est: "a * a + b * b \<le> Mx * Mx * (1 + 1 / 2 ^ 50)"
      using speed_estimate [of a b Mx] M(1) by (simp add: s_def t3_def t2_def t1_def Mx_def)
    have "Mx * Mx * (1 + 1 / 2 ^ 50) \<le> Mx * Mx * (1 + 1 / 2 ^ 49)"
      by (intro mult_left_mono) simp_all
    with est have "a * a + b * b \<le> Mx * Mx * (1 + 1 / 2 ^ 49)"
      by (rule order_trans)
    then have "vx p * vx p + vy p * vy p \<le> Mx * Mx * (1 + 1 / 2 ^ 49)"
      by (simp only: a_def b_def)
    moreover have "\<bar>vx p\<bar> \<le> 2 ^ 502" "\<bar>vy p\<bar> \<le> 2 ^ 502" using v by simp_all
    ultimately show ?thesis unfolding c by (simp add: Mx_def)
  qed
qed

text \<open>
  A bounce multiplies a component by the binary64 number nearest to \<open>-0.9\<close>: the
  rounded product is no larger than the component, unless both are subnormal.
\<close>

lemma restitution64: "\<bar>- round64 0.9\<bar> \<le> 19 / 20"
  using round64_upper [of "0.9"] by (simp add: half_min_subnormal_def)

lemma bounce_shrinks:
  fixes v c :: real
  assumes c: "\<bar>c\<bar> \<le> 19 / 20"
  shows "round64 (v * c) * round64 (v * c) \<le> v * v + 1 / 2 ^ 2042"
proof -
  define y where "y = v * c"
  have "\<bar>y\<bar> = \<bar>v\<bar> * \<bar>c\<bar>" by (simp add: y_def abs_mult)
  also have "\<dots> \<le> \<bar>v\<bar> * (19 / 20)" using c by (intro mult_left_mono) simp_all
  finally have y: "\<bar>y\<bar> \<le> \<bar>v\<bar> * (19 / 20)" .
  show ?thesis
  proof (cases "2 powi (- 1022) \<le> \<bar>y\<bar>")
    case True
    have "\<bar>round64 y - y\<bar> \<le> \<bar>y\<bar> * (1 / 2 ^ 53)"
      using round64_error_normal [OF True] by (simp add: unit_roundoff_def)
    moreover have "\<bar>round64 y\<bar> \<le> \<bar>y\<bar> + \<bar>round64 y - y\<bar>" by linarith
    ultimately have "\<bar>round64 y\<bar> \<le> \<bar>y\<bar> + \<bar>y\<bar> * (1 / 2 ^ 53)" by linarith
    then have "\<bar>round64 y\<bar> \<le> \<bar>y\<bar> * (1 + 1 / 2 ^ 53)" by (simp only: distrib_left mult_1_right)
    also have "\<dots> \<le> (\<bar>v\<bar> * (19 / 20)) * (1 + 1 / 2 ^ 53)"
      using y by (intro mult_right_mono) simp_all
    also have "\<dots> \<le> \<bar>v\<bar>" by simp
    finally have "round64 y * round64 y \<le> \<bar>v\<bar> * \<bar>v\<bar>" by (rule abs_square_le)
    then show ?thesis by (simp add: y_def)
  next
    case False
    then have s: "\<bar>y\<bar> < 2 powi (- 1022)" by simp
    have "\<bar>round64 y - y\<bar> \<le> half_min_subnormal"
      using round64_error_subnormal [OF s] .
    then have "\<bar>round64 y\<bar> \<le> \<bar>y\<bar> + half_min_subnormal" by linarith
    also have "\<dots> \<le> 1 / 2 ^ 1021"
      using s by (simp add: half_min_subnormal_def)
    finally have "round64 y * round64 y \<le> (1 / 2 ^ 1021) * (1 / 2 ^ 1021)"
      by (rule abs_square_le)
    also have "\<dots> = (1 / 2 ^ 2042 :: real)" by simp
    finally have "round64 y * round64 y \<le> 1 / 2 ^ 2042" .
    moreover have "0 \<le> v * v" by simp
    ultimately show ?thesis unfolding y_def by linarith
  qed
qed

lemma fmul_restitution:
  assumes "\<bar>v\<bar> \<le> 2 ^ 502"
  shows "fmul v (- round64 0.9) = Some (round64 (v * (- round64 0.9)))"
proof -
  have "\<bar>v * (- round64 0.9)\<bar> = \<bar>v\<bar> * \<bar>- round64 0.9\<bar>" by (simp only: abs_mult)
  also have "\<dots> \<le> 2 ^ 502 * (19 / 20)"
    using assms restitution64 by (intro mult_mono) simp_all
  also have "\<dots> \<le> 2 ^ 1023" by simp
  finally show ?thesis unfolding fmul_def by (rule fl_Some)
qed

lemma bounceX64_speed:
  assumes "\<bar>vx p\<bar> \<le> 2 ^ 502" and "\<bar>width cv\<bar> \<le> 2 ^ 500" and "\<bar>radius p\<bar> \<le> 2 ^ 500"
  shows "\<exists>q. bounceX64 cv p = Some q
           \<and> vx q * vx q \<le> vx p * vx p + 1 / 2 ^ 2042
           \<and> vy q = vy p \<and> radius q = radius p \<and> py q = py p"
proof -
  have "\<bar>width cv - radius p\<bar> \<le> 2 ^ 1023" using assms(2,3) by simp
  then have l: "fsub (width cv) (radius p) = Some (round64 (width cv - radius p))"
    unfolding fsub_def by (rule fl_Some)
  note m = fmul_restitution [OF assms(1)]
  note b = bounce_shrinks [OF restitution64, of "vx p"]
  have z: "vx p * vx p \<le> vx p * vx p + 1 / 2 ^ 2042" by simp
  show ?thesis
    using b z by (simp add: bounceX64_def l m)
qed

lemma bounceY64_speed:
  assumes "\<bar>vy p\<bar> \<le> 2 ^ 502" and "\<bar>height cv\<bar> \<le> 2 ^ 500" and "\<bar>radius p\<bar> \<le> 2 ^ 500"
  shows "\<exists>q. bounceY64 cv p = Some q
           \<and> vy q * vy q \<le> vy p * vy p + 1 / 2 ^ 2042
           \<and> vx q = vx p"
proof -
  have "\<bar>height cv - radius p\<bar> \<le> 2 ^ 1023" using assms(2,3) by simp
  then have l: "fsub (height cv) (radius p) = Some (round64 (height cv - radius p))"
    unfolding fsub_def by (rule fl_Some)
  note m = fmul_restitution [OF assms(1)]
  note b = bounce_shrinks [OF restitution64, of "vy p"]
  have z: "vy p * vy p \<le> vy p * vy p + 1 / 2 ^ 2042" by simp
  show ?thesis
    using b z by (simp add: bounceY64_def l m)
qed

lemma moveParticle64_total:
  assumes "\<bar>px p\<bar> \<le> 2 ^ 500" "\<bar>py p\<bar> \<le> 2 ^ 500" "\<bar>vx p\<bar> \<le> 2 ^ 502" "\<bar>vy p\<bar> \<le> 2 ^ 502"
  shows "\<exists>q. moveParticle64 p = Some q \<and> vx q = vx p \<and> vy q = vy p \<and> radius q = radius p"
proof -
  have "\<bar>px p + vx p\<bar> \<le> 2 ^ 1023" "\<bar>py p + vy p\<bar> \<le> 2 ^ 1023"
    using assms by simp_all
  then have "fadd (px p) (vx p) = Some (round64 (px p + vx p))"
    "fadd (py p) (vy p) = Some (round64 (py p + vy p))"
    unfolding fadd_def by (simp_all only: fl_Some)
  then show ?thesis by (simp add: moveParticle64_def)
qed

text \<open>The speed as the program computes it from the velocity it has stored.\<close>

lemma round_half_even_tie_odd:
  assumes "y = of_int f + 1/2" and "odd f"
  shows "round_half_even y = f + 1"
proof -
  have "\<lfloor>y\<rfloor> = f" using assms(1) by linarith
  then show ?thesis using assms by (simp add: round_half_even_def Let_def)
qed

lemma round64_tie_odd:
  assumes "2 powi e \<le> \<bar>x\<bar>" and "\<bar>x\<bar> < 2 powi (e + 1)" and "- 1022 \<le> e"
    and "x / 2 powi (e - 52) = of_int f + 1/2" and "odd f"
  shows "round64 x = of_int (f + 1) * 2 powi (e - 52)"
proof -
  have x: "x \<noteq> 0" using assms(1)
    by (metis abs_zero not_le zero_less_numeral zero_less_power_int)
  have "\<lfloor>log 2 \<bar>x\<bar>\<rfloor> = e"
    using floor_log2_iff [OF x, of e] assms(1,2) by simp
  then have b: "binade x = e" using assms(3) by (simp add: binade_def)
  show ?thesis
    using x round_half_even_tie_odd [OF assms(4,5)] by (simp add: round64_def Let_def b)
qed

lemma overshoot_speed64:
  "speed64 \<lparr>px = 6971233278315432 / 2 ^ 51, py = 8724110515880200 / 2 ^ 51, radius = 3,
            vx = - 8899282336111148 / 2 ^ 50, vy = - 6896943810486140 / 2 ^ 50,
            isCyan = True, charge = 1, ax = 0, ay = 0, baseRadius = 3, pulseOffset = 0\<rparr>
     = Some (5629499534213121 / 2 ^ 49)"
proof -
  have "round64 ((- 8899282336111148 / 2 ^ 50) * (- 8899282336111148 / 2 ^ 50))
          = of_int 8792658390024398 * 2 powi (5 - 52)"
    by (rule round64_near) (simp_all add: abs_less_iff)
  then have xx: "fmul (- 8899282336111148 / 2 ^ 50) (- 8899282336111148 / 2 ^ 50)
                   = Some (8792658390024398 / 2 ^ 47)"
    unfolding fmul_def by (intro fl_value) simp_all
  have "round64 ((- 6896943810486140 / 2 ^ 50) * (- 6896943810486140 / 2 ^ 50))
          = of_int 5281090445508405 * 2 powi (5 - 52)"
    by (rule round64_near) (simp_all add: abs_less_iff)
  then have yy: "fmul (- 6896943810486140 / 2 ^ 50) (- 6896943810486140 / 2 ^ 50)
                   = Some (5281090445508405 / 2 ^ 47)"
    unfolding fmul_def by (intro fl_value) simp_all
  have "round64 (8792658390024398 / 2 ^ 47 + 5281090445508405 / 2 ^ 47)
          = of_int (7036874417766401 + 1) * 2 powi (6 - 52)"
    by (rule round64_tie_odd) simp_all
  then have ss: "fadd (8792658390024398 / 2 ^ 47) (5281090445508405 / 2 ^ 47)
                   = Some (7036874417766402 / 2 ^ 46)"
    unfolding fadd_def by (intro fl_value) simp_all
  have b: "(5629499534213121 - 1/2) / 2 ^ 49 < sqrt (7036874417766402 / 2 ^ 46)"
          "sqrt (7036874417766402 / 2 ^ 46) < (5629499534213121 + 1/2) / 2 ^ 49"
    by (rule sqrt_between [of "(5629499534213121 - 1/2) / 2 ^ 49" _ "(5629499534213121 + 1/2) / 2 ^ 49"]; simp)+
  have "round64 (sqrt (7036874417766402 / 2 ^ 46)) = of_int 5629499534213121 * 2 powi (3 - 52)"
  proof (rule round64_near)
    show "2 powi 3 \<le> \<bar>sqrt (7036874417766402 / 2 ^ 46)\<bar>" using b by simp
    show "\<bar>sqrt (7036874417766402 / 2 ^ 46)\<bar> < 2 powi (3 + 1)" using b by simp
    show "- 1022 \<le> (3::int)" by simp
    have "sqrt (7036874417766402 / 2 ^ 46) / 2 powi (3 - 52) - of_int 5629499534213121 < 1/2"
      using b(2) by (simp add: field_simps)
    moreover have "- (sqrt (7036874417766402 / 2 ^ 46) / 2 powi (3 - 52) - of_int 5629499534213121) < 1/2"
      using b(1) by (simp add: field_simps)
    ultimately show "\<bar>sqrt (7036874417766402 / 2 ^ 46) / 2 powi (3 - 52) - of_int 5629499534213121\<bar> < 1/2"
      by (simp only: abs_less_iff)
  qed
  then have sp: "fsqrt (7036874417766402 / 2 ^ 46) = Some (5629499534213121 / 2 ^ 49)"
    unfolding fsqrt_def by (simp add: fl_def)
  show ?thesis
    by (simp only: speed64_def particle.simps xx yy ss sp Option.bind.simps)
qed

lemma speed64_bound:
  fixes M :: real
  assumes S: "vx q * vx q + vy q * vy q \<le> M * M * ((1 + 1 / 2 ^ 48) * (1 + 1 / 2 ^ 48))"
    and M: "1 / 2 ^ 500 \<le> M" "M \<le> 2 ^ 500"
  shows "\<exists>sp. speed64 q = Some sp \<and> sp \<le> M * (1 + 1 / 2 ^ 46)"
proof -
  define a where "a = vx q"
  define b where "b = vy q"
  define aa where "aa = a * a"
  define bb where "bb = b * b"
  define MM where "MM = M * M"
  define h where "h = half_min_subnormal"
  define t1 where "t1 = round64 aa"
  define t2 where "t2 = round64 bb"
  define t3 where "t3 = round64 (t1 + t2)"
  define sp where "sp = round64 (sqrt t3)"
  have M0: "0 \<le> M" using M(1) by (rule floor_nonneg)
  have h: "0 \<le> h" "h \<le> 1" "h \<le> M / 2 ^ 70" "h \<le> MM / 2 ^ 70"
    using tiny_absorbed [OF M(1)] by (simp_all add: h_def MM_def half_min_subnormal_def)
  have n: "0 \<le> aa" "0 \<le> bb" by (simp_all add: aa_def bb_def)
  have "MM \<le> 2 ^ 500 * 2 ^ 500" unfolding MM_def using M(2) M0 by (intro mult_mono) simp_all
  then have MMb: "MM \<le> 2 ^ 1000" by simp
  have MM0: "0 \<le> MM" by (simp add: MM_def)
  have S': "aa + bb \<le> MM * ((1 + 1 / 2 ^ 48) * (1 + 1 / 2 ^ 48))"
    using S by (simp only: aa_def bb_def a_def b_def MM_def)
  have "MM * ((1 + 1 / 2 ^ 48) * (1 + 1 / 2 ^ 48)) \<le> MM * 2"
    using MM0 by (intro mult_left_mono) simp_all
  with S' MMb have sb: "aa + bb \<le> 2 ^ 1001" by simp
  with n have ab: "\<bar>aa\<bar> \<le> 2 ^ 1023" "\<bar>bb\<bar> \<le> 2 ^ 1023" by simp_all
  have f1: "fmul a a = Some t1" "fmul b b = Some t2"
    using fl_Some [OF ab(1)] fl_Some [OF ab(2)]
    by (simp_all add: fmul_def t1_def t2_def aa_def bb_def)
  have u1: "t1 \<le> aa * (1 + 1 / 2 ^ 53) + h" "t2 \<le> bb * (1 + 1 / 2 ^ 53) + h"
    using round64_upper [of aa] round64_upper [of bb] n
    by (simp_all add: t1_def t2_def h_def)
  have n1: "0 \<le> t1" "0 \<le> t2" using n by (simp_all add: t1_def t2_def round64_nonneg)
  have "t1 + t2 \<le> (aa * (1 + 1 / 2 ^ 53) + h) + (bb * (1 + 1 / 2 ^ 53) + h)"
    using u1 by (rule add_mono)
  also have "\<dots> = (aa + bb) * (1 + 1 / 2 ^ 53) + 2 * h"
    by (simp only: distrib_right)
  finally have t12: "t1 + t2 \<le> (aa + bb) * (1 + 1 / 2 ^ 53) + 2 * h" .
  note t12
  also have "(aa + bb) * (1 + 1 / 2 ^ 53) + 2 * h \<le> 2 ^ 1001 * (1 + 1 / 2 ^ 53) + 2"
    using sb h(2) by (intro add_mono mult_right_mono) simp_all
  also have "\<dots> \<le> 2 ^ 1002" by simp
  finally have s12: "\<bar>t1 + t2\<bar> \<le> 2 ^ 1023" using n1 by simp
  then have f2: "fadd t1 t2 = Some t3"
    using fl_Some [of "t1 + t2"] by (simp add: fadd_def t3_def)
  have n3: "0 \<le> t3" using n1 by (simp add: t3_def round64_nonneg)
  have u3: "t3 \<le> (t1 + t2) * (1 + 1 / 2 ^ 53) + h"
    using round64_upper [of "t1 + t2"] n1 by (simp add: t3_def h_def)
  have t3M: "t3 \<le> MM * ((1 + 1 / 2 ^ 47) * (1 + 1 / 2 ^ 47))"
  proof -
    define w :: real where "w = 1 + 1 / 2 ^ 53"
    define G :: real where "G = (1 + 1 / 2 ^ 48) * (1 + 1 / 2 ^ 48)"
    have w: "0 \<le> w" "w \<le> 3 / 2" by (simp_all add: w_def)
    have s1: "t1 + t2 \<le> (aa + bb) * w + 2 * h"
      using t12 by (simp only: w_def)
    have "(aa + bb) * w \<le> (MM * G) * w"
      using S' w(1) unfolding G_def by (intro mult_right_mono)
    with s1 have "t1 + t2 \<le> (MM * G) * w + 2 * h" by linarith
    then have "(t1 + t2) * w \<le> ((MM * G) * w + 2 * h) * w"
      using w(1) by (intro mult_right_mono)
    also have "\<dots> = MM * (G * w * w) + (2 * h) * w" by (simp add: algebra_simps)
    also have "\<dots> \<le> MM * (G * w * w) + (2 * h) * (3 / 2)"
      using w(2) h(1) by (intro add_left_mono mult_left_mono) simp_all
    finally have "(t1 + t2) * w \<le> MM * (G * w * w) + 3 * h" by simp
    with u3 h(1) have "t3 \<le> MM * (G * w * w) + 4 * h" unfolding w_def [symmetric] by linarith
    also have "\<dots> \<le> MM * (G * w * w) + MM / 2 ^ 68" using h(4) by simp
    also have "\<dots> = MM * (G * w * w + 1 / 2 ^ 68)" by (simp add: algebra_simps)
    also have "\<dots> \<le> MM * ((1 + 1 / 2 ^ 47) * (1 + 1 / 2 ^ 47))"
      using MM0 by (intro mult_left_mono) (simp_all add: G_def w_def)
    finally show ?thesis .
  qed
  then have "t3 \<le> (M * (1 + 1 / 2 ^ 47))\<^sup>2"
    by (simp add: MM_def power2_eq_square algebra_simps)
  moreover have "0 \<le> M * (1 + 1 / 2 ^ 47)" using M0 by simp
  ultimately have r: "sqrt t3 \<le> M * (1 + 1 / 2 ^ 47)"
    by (intro real_le_lsqrt) simp_all
  have r0: "0 \<le> sqrt t3" using n3 by simp
  have "M * (1 + 1 / 2 ^ 47) \<le> 2 ^ 500 * 2" using M(2) M0 by (intro mult_mono) simp_all
  with r r0 have "\<bar>sqrt t3\<bar> \<le> 2 ^ 1023" by simp
  then have f3: "fsqrt t3 = Some sp"
    using n3 fl_Some [of "sqrt t3"] by (simp add: fsqrt_def sp_def)
  have "sp \<le> sqrt t3 * (1 + 1 / 2 ^ 53) + h"
    using round64_upper [of "sqrt t3"] r0 by (simp add: sp_def h_def)
  also have "\<dots> \<le> (M * (1 + 1 / 2 ^ 47)) * (1 + 1 / 2 ^ 53) + M / 2 ^ 70"
    using r h(3) by (intro add_mono mult_right_mono) simp_all
  also have "\<dots> \<le> M * (1 + 1 / 2 ^ 46)"
    using M0 by (simp add: algebra_simps)
  finally have "sp \<le> M * (1 + 1 / 2 ^ 46)" .
  moreover have "speed64 q = Some sp"
    by (simp only: speed64_def a_def [symmetric] b_def [symmetric] f1 f2 f3 Option.bind.simps)
  ultimately show ?thesis by blast
qed

text \<open>
  C4, as the code has it. Let the steps before the clamp leave a particle \<open>p4\<close> of finite
  numbers: position, radius and velocity components of magnitude at most \<open>2^500\<close>,
  on a canvas of such dimensions, with \<open>2^-500 \<le> maxVelocity \<le> 2^500\<close>. Then the step
  in binary64 arithmetic returns a particle, no operation overflows or divides by
  zero, and the speed at the end of the step exceeds \<open>maxVelocity\<close> by rounding at
  most: the exact speed \<open>sqrt (vx * vx + vy * vy)\<close> of the stored velocity is at most
  \<open>maxVelocity * (1 + 2^-48)\<close>, and the speed that \<open>Math.sqrt(vx * vx + vy * vy)\<close>
  computes from it is at most \<open>maxVelocity * (1 + 2^-46)\<close>.
\<close>

theorem speed_within_rounding_of_max:
  assumes pre: "preClamp64 phys m rnd p = Some p4"
    and v: "\<bar>vx p4\<bar> \<le> 2 ^ 500" "\<bar>vy p4\<bar> \<le> 2 ^ 500"
    and x: "\<bar>px p4\<bar> \<le> 2 ^ 500" "\<bar>py p4\<bar> \<le> 2 ^ 500" "\<bar>radius p4\<bar> \<le> 2 ^ 500"
    and c: "\<bar>width cv\<bar> \<le> 2 ^ 500" "\<bar>height cv\<bar> \<le> 2 ^ 500"
    and M: "1 / 2 ^ 500 \<le> maxVelocity phys" "maxVelocity phys \<le> 2 ^ 500"
  shows "\<exists>q. updateParticle64 phys cv m rnd p = Some q
           \<and> sqrt (vx q * vx q + vy q * vy q) \<le> maxVelocity phys * (1 + 1 / 2 ^ 48)
           \<and> (\<exists>sp. speed64 q = Some sp \<and> sp \<le> maxVelocity phys * (1 + 1 / 2 ^ 46))"
proof -
  define Mx where "Mx = maxVelocity phys"
  define MM where "MM = Mx * Mx"
  have M0: "0 \<le> Mx" using floor_nonneg [OF M(1)] by (simp only: Mx_def)
  obtain p5 where p5: "clampVelocity64 phys p4 = Some p5"
    and s5: "vx p5 * vx p5 + vy p5 * vy p5 \<le> MM * (1 + 1 / 2 ^ 49)"
    and b5: "\<bar>vx p5\<bar> \<le> 2 ^ 502" "\<bar>vy p5\<bar> \<le> 2 ^ 502"
    and k5: "px p5 = px p4" "py p5 = py p4" "radius p5 = radius p4"
    using clampVelocity64_bound [OF v M] unfolding MM_def Mx_def by blast
  obtain p6 where p6: "moveParticle64 p5 = Some p6"
    and k6: "vx p6 = vx p5" "vy p6 = vy p5" "radius p6 = radius p5"
    using moveParticle64_total [of p5] x b5 k5 by auto
  obtain p7 where p7: "bounceX64 cv p6 = Some p7"
    and s7: "vx p7 * vx p7 \<le> vx p6 * vx p6 + 1 / 2 ^ 2042"
    and k7: "vy p7 = vy p6" "radius p7 = radius p6"
    using bounceX64_speed [of p6 cv] b5 c x k5 k6 by auto
  obtain q where q: "bounceY64 cv p7 = Some q"
    and s8: "vy q * vy q \<le> vy p7 * vy p7 + 1 / 2 ^ 2042"
    and k8: "vx q = vx p7"
    using bounceY64_speed [of p7 cv] b5 c x k5 k6 k7 by auto
  have u: "updateParticle64 phys cv m rnd p = Some q"
    by (simp add: updateParticle64_def pre p5 p6 p7 q)
  define S where "S = vx q * vx q + vy q * vy q"
  have "S \<le> MM * (1 + 1 / 2 ^ 49) + 2 / 2 ^ 2042"
    using s5 s7 s8 by (simp add: S_def k6 k7 k8)
  moreover have "(1 / 2 ^ 500) * (1 / 2 ^ 500) \<le> MM"
    unfolding MM_def Mx_def using M(1) by (intro mult_mono) simp_all
  then have "2 / 2 ^ 2042 \<le> MM / 2 ^ 49" by simp
  moreover have "MM * (1 + 1 / 2 ^ 49) + MM / 2 ^ 49 \<le> MM * ((1 + 1 / 2 ^ 48) * (1 + 1 / 2 ^ 48))"
  proof -
    have "0 \<le> MM" by (simp add: MM_def)
    then have "MM * (1 + 1 / 2 ^ 49 + 1 / 2 ^ 49) \<le> MM * ((1 + 1 / 2 ^ 48) * (1 + 1 / 2 ^ 48))"
      by (intro mult_left_mono) simp_all
    then show ?thesis by (simp add: algebra_simps)
  qed
  ultimately have SM: "S \<le> MM * ((1 + 1 / 2 ^ 48) * (1 + 1 / 2 ^ 48))" by linarith
  then have "S \<le> (Mx * (1 + 1 / 2 ^ 48))\<^sup>2"
    by (simp add: MM_def power2_eq_square algebra_simps)
  moreover have "0 \<le> Mx * (1 + 1 / 2 ^ 48)" using M0 by simp
  ultimately have e: "sqrt S \<le> Mx * (1 + 1 / 2 ^ 48)"
    by (intro real_le_lsqrt) simp_all
  have "\<exists>sp. speed64 q = Some sp \<and> sp \<le> Mx * (1 + 1 / 2 ^ 46)"
    using SM M by (intro speed64_bound) (simp_all only: S_def MM_def Mx_def)
  with e u show ?thesis
    by (simp only: S_def Mx_def) blast
qed

theorem speed_within_rounding_of_max_witness:
  "(let p = \<lparr>px = 11, py = 10, radius = 3, vx = - 40, vy = - 31, isCyan = True, charge = 1,
             ax = 0, ay = 0, baseRadius = 3, pulseOffset = 0\<rparr>;
        ph = physics64 (physics config);
        cv = \<lparr>width = 800, height = 600\<rparr>
    in preClamp64 ph mouse_init (1/2, 1/2) p = Some p
     \<and> maxVelocity ph = 10
     \<and> (\<exists>q. updateParticle64 ph cv mouse_init (1/2, 1/2) p = Some q
            \<and> sqrt (vx q * vx q + vy q * vy q) \<le> maxVelocity ph * (1 + 1 / 2 ^ 48)
            \<and> (\<exists>sp. speed64 q = Some sp \<and> sp \<le> maxVelocity ph * (1 + 1 / 2 ^ 46))))"
proof -
  define p where "p = \<lparr>px = 11, py = 10, radius = 3, vx = - 40, vy = - 31, isCyan = True,
             charge = 1, ax = 0, ay = 0, baseRadius = 3, pulseOffset = 0 :: real\<rparr>"
  define ph where "ph = physics64 (physics config)"
  define cv where "cv = \<lparr>width = 800, height = 600 :: real\<rparr>"
  have pre: "preClamp64 ph mouse_init (1/2, 1/2) p = Some p"
    unfolding ph_def p_def by (rule overshoot_steps(1))
  have M: "maxVelocity ph = 10"
    unfolding ph_def by (rule physics64_config(1))
  have "\<exists>q. updateParticle64 ph cv mouse_init (1/2, 1/2) p = Some q
            \<and> sqrt (vx q * vx q + vy q * vy q) \<le> maxVelocity ph * (1 + 1 / 2 ^ 48)
            \<and> (\<exists>sp. speed64 q = Some sp \<and> sp \<le> maxVelocity ph * (1 + 1 / 2 ^ 46))"
    by (rule speed_within_rounding_of_max [OF pre]) (simp_all add: M p_def cv_def)
  with pre M show ?thesis
    unfolding Let_def p_def [symmetric] ph_def [symmetric] cv_def [symmetric] by (intro conjI)
qed

text \<open>
  C4, as the spec states it, fails by rounding. The particle at \<open>(11, 10)\<close> with velocity
  \<open>(-40, -31)\<close>, no acceleration, no noise and no pointer is clamped to the velocity
  \<open>(-7.904150521752438, -6.12571665435814)\<close> and does not bounce; the exact speed of
  that velocity is greater than the \<open>maxVelocity\<close> of 10, and so is the speed
  \<open>10.000000000000002\<close> that the program computes from it.
\<close>

theorem speed_bound_counterexample:
  "updateParticle64 (physics64 (physics config)) \<lparr>width = 800, height = 600\<rparr> mouse_init (1/2, 1/2)
     \<lparr>px = 11, py = 10, radius = 3, vx = - 40, vy = - 31, isCyan = True, charge = 1,
      ax = 0, ay = 0, baseRadius = 3, pulseOffset = 0\<rparr>
     = Some \<lparr>px = 6971233278315432 / 2 ^ 51, py = 8724110515880200 / 2 ^ 51, radius = 3,
             vx = - 8899282336111148 / 2 ^ 50, vy = - 6896943810486140 / 2 ^ 50,
             isCyan = True, charge = 1, ax = 0, ay = 0, baseRadius = 3, pulseOffset = 0\<rparr>
   \<and> maxVelocity (physics64 (physics config)) = 10
   \<and> \<not> sqrt ((- 8899282336111148 / 2 ^ 50) * (- 8899282336111148 / 2 ^ 50)
             + (- 6896943810486140 / 2 ^ 50) * (- 6896943810486140 / 2 ^ 50)) \<le> 10
   \<and> speed64 \<lparr>px = 6971233278315432 / 2 ^ 51, py = 8724110515880200 / 2 ^ 51, radius = 3,
             vx = - 8899282336111148 / 2 ^ 50, vy = - 6896943810486140 / 2 ^ 50,
             isCyan = True, charge = 1, ax = 0, ay = 0, baseRadius = 3, pulseOffset = 0\<rparr>
       = Some (5629499534213121 / 2 ^ 49)
   \<and> \<not> (5629499534213121 / 2 ^ 49 :: real) \<le> 10"
proof -
  have "updateParticle64 (physics64 (physics config)) \<lparr>width = 800, height = 600\<rparr> mouse_init (1/2, 1/2)
     \<lparr>px = 11, py = 10, radius = 3, vx = - 40, vy = - 31, isCyan = True, charge = 1,
      ax = 0, ay = 0, baseRadius = 3, pulseOffset = 0\<rparr>
     = Some \<lparr>px = 6971233278315432 / 2 ^ 51, py = 8724110515880200 / 2 ^ 51, radius = 3,
             vx = - 8899282336111148 / 2 ^ 50, vy = - 6896943810486140 / 2 ^ 50,
             isCyan = True, charge = 1, ax = 0, ay = 0, baseRadius = 3, pulseOffset = 0\<rparr>"
    unfolding updateParticle64_def
    by (simp only: overshoot_steps Option.bind.simps) simp
  moreover note physics64_config(1)
  moreover have "\<not> sqrt ((- 8899282336111148 / 2 ^ 50) * (- 8899282336111148 / 2 ^ 50)
             + (- 6896943810486140 / 2 ^ 50) * (- 6896943810486140 / 2 ^ 50)) \<le> (10 :: real)"
    using exceeds by (simp only: not_le)
  moreover note overshoot_speed64
  moreover have "\<not> (5629499534213121 / 2 ^ 49 :: real) \<le> 10" by simp
  ultimately show ?thesis by (intro conjI)
qed

end
